(* ===== verification/Proem_Prelude.thy ===== *)
theory Proem_Prelude
  imports Main "HOL-Library.Char_ord" "HOL-Library.AList"
begin

text \<open>
  Shared vocabulary of the development: the names of the model's types, the collections
  the component proofs draw on, Go's 64-bit \<open>int\<close> with its wrap-around, and the generic
  list and association-list lemmas several components need.

  \<^item> A Go \<open>string\<close> or \<open>[]byte\<close> is a list of bytes, \<^typ>\<open>string\<close>.
  \<^item> A Go \<open>int\<close> (and \<open>time.Duration\<close>) is an \<^typ>\<open>int\<close>; operations that can overflow
    go through \<open>wrap64\<close>.
  \<^item> A Go \<open>map[string]T\<close> that the code ranges over is an association list with distinct
    keys whose order stands for the (unspecified) iteration order, so that a theorem about
    every list is a theorem about every order.
  \<^item> A fallible Go function returns a sum, \<open>Inl\<close> the error.
\<close>

type_synonym bytes = string
type_synonym ('e, 'a) outcome = "'e + 'a"

named_theorems step_defs \<open>definitions of one iteration of the failover loop, unfolded together\<close>
named_theorems layer_defs \<open>definitions of the layers around the handler, unfolded together\<close>

section \<open>Machine integers\<close>

text \<open>The value a 64-bit two's complement \<open>int\<close> holds after an operation whose mathematical
  result is \<open>x\<close>.\<close>

definition wrap64 :: "int \<Rightarrow> int" where
  "wrap64 x = (x + 2 ^ 63) mod 2 ^ 64 - 2 ^ 63"

abbreviation max_int64 :: int where "max_int64 \<equiv> 9223372036854775807"

definition int64 :: "int \<Rightarrow> bool" where
  "int64 x \<longleftrightarrow> - 9223372036854775808 \<le> x \<and> x \<le> max_int64"

lemma wrap64_id [simp]: "int64 x \<Longrightarrow> wrap64 x = x"
  by (simp add: wrap64_def int64_def)

lemma int64_wrap64 [simp]: "int64 (wrap64 x)"
proof -
  have "0 \<le> (x + 9223372036854775808) mod 18446744073709551616"
    and "(x + 9223372036854775808) mod 18446744073709551616 < 18446744073709551616"
    by simp_all
  then show ?thesis by (simp add: wrap64_def int64_def)
qed

lemma wrap64_nonneg_id: "0 \<le> x \<Longrightarrow> x \<le> max_int64 \<Longrightarrow> wrap64 x = x"
  by (simp add: int64_def)

section \<open>Lists and association lists\<close>

lemma map_of_update_key [simp]:
  "map_of (AList.update k v al) k' = (if k' = k then Some v else map_of al k')"
  by (simp add: update_conv')

lemma map_of_delete_key [simp]:
  "map_of (AList.delete k al) k' = (if k' = k then None else map_of al k')"
  by (simp add: delete_conv')

lemma distinct_keys_update [simp]:
  "distinct (map fst al) \<Longrightarrow> distinct (map fst (AList.update k v al))"
  by (rule distinct_update)

lemma distinct_keys_delete [simp]:
  "distinct (map fst al) \<Longrightarrow> distinct (map fst (AList.delete k al))"
  by (rule distinct_delete)

lemma sum_list_ge_length:
  "(\<And>x. x \<in> set xs \<Longrightarrow> 1 \<le> f x) \<Longrightarrow> int (length xs) \<le> (\<Sum>x\<leftarrow>xs. f x)"
  by (induction xs) force+

lemma sum_list_nonneg_map:
  "(\<And>x. x \<in> set xs \<Longrightarrow> (0::int) \<le> f x) \<Longrightarrow> 0 \<le> (\<Sum>x\<leftarrow>xs. f x)"
  by (induction xs) auto

lemma find_in_set: "find P xs = Some x \<Longrightarrow> x \<in> set xs \<and> P x"
  by (auto simp: find_Some_iff)

lemma filter_length_less:
  "x \<in> set xs \<Longrightarrow> \<not> P x \<Longrightarrow> length (filter P xs) < length xs"
  by (rule length_filter_less)

end
