(* ===== verification/Go_Strings.thy ===== *)
theory Go_Strings
  imports Proem_Prelude
begin

text \<open>
  The part of Go's \<open>strings\<close>, \<open>bytes\<close> and \<open>strconv\<close> packages the program uses, on byte
  lists. Every function here is the library's behaviour on the inputs the program gives it:

  \<^item> \<open>to_lower\<close> lowers ASCII letters and the two non-ASCII letters whose lower case is ASCII
    (U+0130 and U+212A, written as their UTF-8 bytes). Every other rune lowers to a non-ASCII
    rune, and its bytes are left alone; the program only ever looks for ASCII text in a
    lowered string, for which this view is exact.
  \<^item> \<open>trim_space\<close> removes the UTF-8 encodings of Unicode white space at both ends.
  \<^item> \<open>equal_fold\<close> is used against ASCII constants without the letters k and s only, where
    simple folding is ASCII case folding.
\<close>

section \<open>Prefixes, substrings, replacement\<close>

fun has_prefix :: "bytes \<Rightarrow> bytes \<Rightarrow> bool" where
  "has_prefix [] s = True"
| "has_prefix (p # ps) [] = False"
| "has_prefix (p # ps) (c # cs) = (p = c \<and> has_prefix ps cs)"

lemma has_prefix_iff: "has_prefix p s \<longleftrightarrow> (\<exists>t. s = p @ t)"
  by (induction p s rule: has_prefix.induct) auto

lemma has_prefix_append [simp]: "has_prefix p (p @ t)"
  by (induction p) auto

lemma has_prefix_length: "has_prefix p s \<Longrightarrow> length p \<le> length s"
  by (auto simp: has_prefix_iff)

fun contains :: "bytes \<Rightarrow> bytes \<Rightarrow> bool" where
  "contains [] sub = (sub = [])"
| "contains (c # cs) sub = (has_prefix sub (c # cs) \<or> contains cs sub)"

lemma contains_iff: "contains s sub \<longleftrightarrow> (\<exists>a b. s = a @ sub @ b)"
proof (induction s)
  case Nil
  then show ?case by simp
next
  case (Cons c cs)
  show ?case
  proof
    assume "contains (c # cs) sub"
    then consider "has_prefix sub (c # cs)" | "contains cs sub" by auto
    then show "\<exists>a b. c # cs = a @ sub @ b"
    proof cases
      case 1
      then show ?thesis by (metis append_Nil has_prefix_iff)
    next
      case 2
      then show ?thesis using Cons.IH by (metis append_Cons)
    qed
  next
    assume "\<exists>a b. c # cs = a @ sub @ b"
    then obtain a b where ab: "c # cs = a @ sub @ b" by blast
    show "contains (c # cs) sub"
    proof (cases a)
      case Nil
      with ab have "has_prefix sub (c # cs)" by simp
      then show ?thesis by simp
    next
      case (Cons x a')
      with ab have "cs = a' @ sub @ b" by simp
      then show ?thesis using Cons.IH by auto
    qed
  qed
qed

lemma contains_self [simp]: "contains s s"
  by (auto simp: contains_iff intro: exI [of _ "[]"])

lemma contains_append_left: "contains s sub \<Longrightarrow> contains (a @ s) sub"
  by (metis append_assoc contains_iff)

lemma contains_append_right: "contains s sub \<Longrightarrow> contains (s @ b) sub"
  by (metis append_assoc contains_iff)

text \<open>\<open>strings.ReplaceAll\<close> with a non-empty pattern, the only way the program calls it: the
  leftmost occurrences, scanned left to right without overlap.\<close>

function replace_all :: "bytes \<Rightarrow> bytes \<Rightarrow> bytes \<Rightarrow> bytes" where
  "replace_all old new [] = []"
| "replace_all old new (c # cs) =
     (if old \<noteq> [] \<and> has_prefix old (c # cs)
      then new @ replace_all old new (drop (length old) (c # cs))
      else c # replace_all old new cs)"
  by pat_completeness auto
termination
  by (relation "measure (\<lambda>(old, new, s). length s)") (auto simp: neq_Nil_conv)

lemma replace_all_absent: "\<not> contains s old \<Longrightarrow> replace_all old new s = s"
  by (induction s) auto

lemma replace_all_at: "old \<noteq> [] \<Longrightarrow> replace_all old new (old @ s) = new @ replace_all old new s"
  by (cases old) auto

section \<open>Case\<close>

text \<open>Bytes are compared through their numbers.\<close>

lemma char_eq_nat: "c = d \<longleftrightarrow> (of_char c :: nat) = of_char d"
  by simp

definition lower_char :: "char \<Rightarrow> char" where
  "lower_char c = (if 65 \<le> (of_char c :: nat) \<and> (of_char c :: nat) \<le> 90
                   then char_of ((of_char c :: nat) + 32) else c)"

lemma of_char_lower [simp]:
  "(of_char (lower_char c) :: nat) =
     (if 65 \<le> (of_char c :: nat) \<and> (of_char c :: nat) \<le> 90 then of_char c + 32 else of_char c)"
  by (simp add: lower_char_def of_char_of)

function to_lower :: "bytes \<Rightarrow> bytes" where
  "to_lower [] = []"
| "to_lower (c # cs) =
     (if has_prefix [CHR 0xC4, CHR 0xB0] (c # cs) then CHR ''i'' # to_lower (drop 2 (c # cs))
      else if has_prefix [CHR 0xE2, CHR 0x84, CHR 0xAA] (c # cs)
        then CHR ''k'' # to_lower (drop 3 (c # cs))
      else lower_char c # to_lower cs)"
  by pat_completeness auto
termination
  by (relation "measure length") auto

definition equal_fold :: "bytes \<Rightarrow> bytes \<Rightarrow> bool" where
  "equal_fold s t \<longleftrightarrow> map lower_char s = map lower_char t"

lemma equal_fold_refl [simp]: "equal_fold s s"
  by (simp add: equal_fold_def)

lemma equal_fold_length: "equal_fold s t \<Longrightarrow> length s = length t"
  by (metis equal_fold_def length_map)

section \<open>Trimming\<close>

definition space_seqs :: "bytes list" where
  "space_seqs =
     [[CHR 0x09], [CHR 0x0A], [CHR 0x0B], [CHR 0x0C], [CHR 0x0D], [CHR 0x20],
      [CHR 0xC2, CHR 0x85], [CHR 0xC2, CHR 0xA0],
      [CHR 0xE1, CHR 0x9A, CHR 0x80],
      [CHR 0xE2, CHR 0x80, CHR 0x80], [CHR 0xE2, CHR 0x80, CHR 0x81],
      [CHR 0xE2, CHR 0x80, CHR 0x82], [CHR 0xE2, CHR 0x80, CHR 0x83],
      [CHR 0xE2, CHR 0x80, CHR 0x84], [CHR 0xE2, CHR 0x80, CHR 0x85],
      [CHR 0xE2, CHR 0x80, CHR 0x86], [CHR 0xE2, CHR 0x80, CHR 0x87],
      [CHR 0xE2, CHR 0x80, CHR 0x88], [CHR 0xE2, CHR 0x80, CHR 0x89],
      [CHR 0xE2, CHR 0x80, CHR 0x8A], [CHR 0xE2, CHR 0x80, CHR 0xA8],
      [CHR 0xE2, CHR 0x80, CHR 0xA9], [CHR 0xE2, CHR 0x80, CHR 0xAF],
      [CHR 0xE2, CHR 0x81, CHR 0x9F], [CHR 0xE3, CHR 0x80, CHR 0x80]]"

text \<open>Drop sequences of the list \<open>ws\<close> from the front as long as one is there.\<close>

function trim_by :: "bytes list \<Rightarrow> bytes \<Rightarrow> bytes" where
  "trim_by ws s =
     (case find (\<lambda>w. w \<noteq> [] \<and> has_prefix w s) ws of
        None \<Rightarrow> s
      | Some w \<Rightarrow> trim_by ws (drop (length w) s))"
  by pat_completeness auto
termination
proof (relation "measure (\<lambda>(ws, s). length s)", goal_cases)
  case 1
  then show ?case by simp
next
  case (2 ws s w)
  then have "w \<noteq> []" and "has_prefix w s"
    by (auto simp: find_Some_iff)
  then show ?case by (cases w) (auto dest: has_prefix_length)
qed

declare trim_by.simps [simp del]

definition trim_left_space :: "bytes \<Rightarrow> bytes" where
  "trim_left_space s = trim_by space_seqs s"

definition trim_right_space :: "bytes \<Rightarrow> bytes" where
  "trim_right_space s = rev (trim_by (map rev space_seqs) (rev s))"

definition trim_space :: "bytes \<Rightarrow> bytes" where
  "trim_space s = trim_right_space (trim_left_space s)"

text \<open>\<open>strings.TrimRight(s, cutset)\<close> and \<open>strings.Trim(s, cutset)\<close> for an ASCII cutset.\<close>

definition trim_right_chars :: "bytes \<Rightarrow> bytes \<Rightarrow> bytes" where
  "trim_right_chars s cs = rev (dropWhile (\<lambda>c. c \<in> set cs) (rev s))"

definition trim_chars :: "bytes \<Rightarrow> bytes \<Rightarrow> bytes" where
  "trim_chars s cs = trim_right_chars (dropWhile (\<lambda>c. c \<in> set cs) s) cs"

lemma trim_by_stop:
  "find (\<lambda>w. w \<noteq> [] \<and> has_prefix w s) ws = None \<Longrightarrow> trim_by ws s = s"
  by (simp add: trim_by.simps [of ws s])

lemma trim_by_drop:
  "find (\<lambda>w. w \<noteq> [] \<and> has_prefix w s) ws = Some w \<Longrightarrow>
     trim_by ws s = trim_by ws (drop (length w) s)"
  by (simp add: trim_by.simps [of ws s])

lemma trim_by_suffix: "\<exists>a. s = a @ trim_by ws s"
proof (induction ws s rule: trim_by.induct)
  case (1 ws s)
  show ?case
  proof (cases "find (\<lambda>w. w \<noteq> [] \<and> has_prefix w s) ws")
    case None
    then show ?thesis by (simp add: trim_by_stop)
  next
    case (Some w)
    then obtain a where "drop (length w) s = a @ trim_by ws (drop (length w) s)"
      using "1" by blast
    then have "s = (take (length w) s @ a) @ trim_by ws s"
      using Some by (metis append_assoc append_take_drop_id trim_by_drop)
    then show ?thesis by blast
  qed
qed

lemma trim_by_front:
  "w \<in> set ws \<Longrightarrow> w \<noteq> [] \<Longrightarrow> \<not> has_prefix w (trim_by ws s)"
proof (induction ws s rule: trim_by.induct)
  case (1 ws s)
  show ?case
  proof (cases "find (\<lambda>w. w \<noteq> [] \<and> has_prefix w s) ws")
    case None
    with "1.prems" have "\<not> has_prefix w s" by (auto simp: find_None_iff)
    with None show ?thesis by (simp add: trim_by_stop)
  next
    case (Some v)
    with "1" show ?thesis by (simp add: trim_by_drop)
  qed
qed

lemma trim_left_front:
  "w \<in> set space_seqs \<Longrightarrow> \<not> has_prefix w (trim_left_space s)"
  unfolding trim_left_space_def by (rule trim_by_front) (auto simp: space_seqs_def)

lemma trim_right_back:
  assumes "w \<in> set space_seqs"
  shows "trim_right_space s \<noteq> a @ w"
proof
  assume "trim_right_space s = a @ w"
  then have "has_prefix (rev w) (trim_by (map rev space_seqs) (rev s))"
    by (metis has_prefix_append rev_append rev_rev_ident trim_right_space_def)
  moreover have "rev w \<in> set (map rev space_seqs)" "rev w \<noteq> []"
    using assms by (auto simp: space_seqs_def)
  ultimately show False using trim_by_front by blast
qed

lemma trim_right_prefix: "\<exists>b. s = trim_right_space s @ b"
  by (metis rev_append rev_rev_ident trim_by_suffix trim_right_space_def)

text \<open>Trimming leaves no white space at either end and is idempotent.\<close>

lemma trim_space_no_front:
  assumes "w \<in> set space_seqs"
  shows "\<not> has_prefix w (trim_space s)"
proof
  assume "has_prefix w (trim_space s)"
  then obtain t where "trim_space s = w @ t" by (auto simp: has_prefix_iff)
  moreover obtain b where "trim_left_space s = trim_space s @ b"
    using trim_right_prefix trim_space_def by metis
  ultimately have "has_prefix w (trim_left_space s)" by simp
  with assms show False using trim_left_front by blast
qed

lemma trim_space_no_back: "w \<in> set space_seqs \<Longrightarrow> trim_space s \<noteq> a @ w"
  unfolding trim_space_def by (rule trim_right_back)

lemma trim_by_fixed: "(\<And>w. w \<in> set ws \<Longrightarrow> w \<noteq> [] \<Longrightarrow> \<not> has_prefix w s) \<Longrightarrow> trim_by ws s = s"
  by (rule trim_by_stop) (auto simp: find_None_iff)

lemma trim_space_idem [simp]: "trim_space (trim_space s) = trim_space s"
proof -
  let ?t = "trim_space s"
  have left: "trim_left_space ?t = ?t"
    unfolding trim_left_space_def by (rule trim_by_fixed) (rule trim_space_no_front)
  have "\<not> has_prefix v (rev ?t)" if "v \<in> set (map rev space_seqs)" for v
  proof
    assume "has_prefix v (rev ?t)"
    then obtain u where "rev ?t = v @ u" by (auto simp: has_prefix_iff)
    then have "?t = rev u @ rev v" by (metis rev_append rev_rev_ident)
    moreover have "rev v \<in> set space_seqs" using that by auto
    ultimately show False using trim_space_no_back by blast
  qed
  then have "trim_by (map rev space_seqs) (rev ?t) = rev ?t" by (rule trim_by_fixed)
  then have "trim_right_space ?t = ?t" by (simp add: trim_right_space_def)
  with left show ?thesis by (simp add: trim_space_def)
qed

lemma trim_space_Nil [simp]: "trim_space [] = []"
  by (simp add: trim_space_def trim_left_space_def trim_right_space_def trim_by_fixed neq_Nil_conv
      has_prefix_iff)

section \<open>Splitting\<close>

text \<open>\<open>strings.Split(s, sep)\<close> for a one-byte separator: never empty, and the parts joined by the
  separator give the string back.\<close>

fun split_on :: "char \<Rightarrow> bytes \<Rightarrow> bytes list" where
  "split_on sep [] = [[]]"
| "split_on sep (c # cs) =
     (if c = sep then [] # split_on sep cs
      else (case split_on sep cs of [] \<Rightarrow> [[c]] | p # ps \<Rightarrow> (c # p) # ps))"

fun join_with :: "char \<Rightarrow> bytes list \<Rightarrow> bytes" where
  "join_with sep [] = []"
| "join_with sep [p] = p"
| "join_with sep (p # ps) = p @ sep # join_with sep ps"

lemma split_on_nonempty [simp]: "split_on sep s \<noteq> []"
  by (induction s) (auto split: list.splits)

lemma join_split: "join_with sep (split_on sep s) = s"
proof (induction s)
  case Nil
  then show ?case by simp
next
  case (Cons c cs)
  obtain p ps where sp: "split_on sep cs = p # ps"
    using split_on_nonempty neq_Nil_conv by metis
  with Cons.IH show ?case by (cases ps) auto
qed

lemma split_on_append: "split_on sep (a @ sep # b) = split_on sep a @ split_on sep b"
  by (induction a) (auto split: list.splits)

text \<open>\<open>strings.Cut(s, sep)\<close> for a one-byte separator.\<close>

fun cut_on :: "char \<Rightarrow> bytes \<Rightarrow> (bytes \<times> bytes) option" where
  "cut_on sep [] = None"
| "cut_on sep (c # cs) =
     (if c = sep then Some ([], cs)
      else map_option (\<lambda>(a, b). (c # a, b)) (cut_on sep cs))"

lemma cut_on_Some: "cut_on sep s = Some (a, b) \<longleftrightarrow> s = a @ sep # b \<and> sep \<notin> set a"
proof (induction s arbitrary: a)
  case Nil
  then show ?case by simp
next
  case (Cons c cs)
  then show ?case by (cases a) auto
qed

lemma cut_on_None: "cut_on sep s = None \<longleftrightarrow> sep \<notin> set s"
  by (induction s) auto

section \<open>Decimal numbers\<close>

definition is_digit :: "char \<Rightarrow> bool" where
  "is_digit c \<longleftrightarrow> 48 \<le> (of_char c :: nat) \<and> (of_char c :: nat) \<le> 57"

definition digit_val :: "char \<Rightarrow> int" where
  "digit_val c = int (of_char c :: nat) - 48"

definition digit_char :: "nat \<Rightarrow> char" where
  "digit_char d = char_of (48 + d)"

text \<open>The value of a digit string read left to right from \<open>acc\<close>; \<open>None\<close> at a non-digit.\<close>

fun digits_val :: "int \<Rightarrow> bytes \<Rightarrow> int option" where
  "digits_val acc [] = Some acc"
| "digits_val acc (c # cs) =
     (if is_digit c then digits_val (10 * acc + digit_val c) cs else None)"

text \<open>\<open>strconv.Atoi\<close>: an optional sign, at least one digit, nothing else, and a value in the range
  of a 64-bit \<open>int\<close>; \<open>None\<close> is the error return.\<close>

definition atoi :: "bytes \<Rightarrow> int option" where
  "atoi s =
     (let (neg, ds) = (case s of [] \<Rightarrow> (False, [])
                       | c # cs \<Rightarrow> if c = CHR ''-'' then (True, cs)
                                   else if c = CHR ''+'' then (False, cs) else (False, s))
      in if ds = [] then None
         else case digits_val 0 ds of
                None \<Rightarrow> None
              | Some v \<Rightarrow> let x = (if neg then - v else v) in if int64 x then Some x else None)"

text \<open>The decimal digits of a number, most significant first, as the two hand-written
  \<open>itoa\<close> loops produce them.\<close>

function dec_digits :: "nat \<Rightarrow> bytes" where
  "dec_digits n = (if n = 0 then [] else dec_digits (n div 10) @ [digit_char (n mod 10)])"
  by pat_completeness auto
termination
  by (relation "measure id") auto

declare dec_digits.simps [simp del]

lemma dec_digits_0 [simp]: "dec_digits 0 = []"
  by (simp add: dec_digits.simps)

lemma digit_char_props:
  assumes "d < 10"
  shows "is_digit (digit_char d)" and "digit_val (digit_char d) = int d"
  using assms
  by (simp_all add: is_digit_def digit_val_def digit_char_def of_char_of)

lemma digits_val_append:
  "digits_val acc (s @ t) = (case digits_val acc s of None \<Rightarrow> None | Some v \<Rightarrow> digits_val v t)"
  by (induction s arbitrary: acc) auto

lemma dec_digits_val: "digits_val 0 (dec_digits n) = Some (int n)"
proof (induction n rule: dec_digits.induct)
  case (1 n)
  show ?case
  proof (cases "n = 0")
    case True
    then show ?thesis by (simp add: dec_digits.simps)
  next
    case False
    with "1" have "digits_val 0 (dec_digits (n div 10)) = Some (int (n div 10))" by simp
    moreover have "10 * int (n div 10) + int (n mod 10) = int n" by presburger
    ultimately show ?thesis using False
      by (simp add: dec_digits.simps [of n] digits_val_append digit_char_props)
  qed
qed

lemma dec_digits_nonempty: "n \<noteq> 0 \<Longrightarrow> dec_digits n \<noteq> []"
  by (simp add: dec_digits.simps [of n])

lemma dec_digits_all: "c \<in> set (dec_digits n) \<Longrightarrow> is_digit c"
proof (induction n rule: dec_digits.induct)
  case (1 n)
  then show ?case
    by (cases "n = 0") (auto simp: dec_digits.simps [of n] digit_char_props)
qed

lemma dec_digits_length: "n < 10 ^ k \<Longrightarrow> length (dec_digits n) \<le> k"
proof (induction k arbitrary: n)
  case 0
  then show ?case by (simp add: dec_digits.simps)
next
  case (Suc k)
  then have "n div 10 < 10 ^ k" by (simp add: less_mult_imp_div_less)
  then have "length (dec_digits (n div 10)) \<le> k" by (rule Suc.IH)
  then show ?case by (simp add: dec_digits.simps [of n])
qed

lemma atoi_digits:
  assumes "ds \<noteq> []" and "\<And>c. c \<in> set ds \<Longrightarrow> is_digit c" and "digits_val 0 ds = Some v"
    and "int64 v"
  shows "atoi ds = Some v"
proof -
  obtain c cs where ds: "ds = c # cs" using assms(1) neq_Nil_conv by metis
  with assms(2) have "is_digit c" by simp
  then have "c \<noteq> CHR ''-''" and "c \<noteq> CHR ''+''" by (auto simp: is_digit_def)
  with assms ds show ?thesis by (simp add: atoi_def Let_def)
qed

text \<open>The loop both copies of \<open>itoa\<close> run: digits are written into an array of \<open>cap\<close> bytes from its end,
  and \<open>buf\<close> is the part written so far. \<open>None\<close> is the panic of an index out of range.\<close>

function itoa_fill :: "nat \<Rightarrow> int \<Rightarrow> bytes \<Rightarrow> bytes option" where
  "itoa_fill cap n buf =
     (if 0 < n then
        (if length buf < cap then itoa_fill cap (n div 10) (digit_char (nat (n mod 10)) # buf) else None)
      else Some buf)"
  by pat_completeness auto
termination
  by (relation "measure (\<lambda>(cap, n, buf). nat n)") auto

declare itoa_fill.simps [simp del]

lemma itoa_fill_digits:
  "itoa_fill cap n buf =
     (if n \<le> 0 \<or> length (dec_digits (nat n)) + length buf \<le> cap
      then Some (dec_digits (nat n) @ buf) else None)"
proof (induction cap n buf rule: itoa_fill.induct)
  case (1 cap n buf)
  show ?case
  proof (cases "0 < n \<and> length buf < cap")
    case True
    then have "nat n \<noteq> 0" by simp
    have dd: "dec_digits (nat n) = dec_digits (nat (n div 10)) @ [digit_char (nat (n mod 10))]"
      using True by (simp add: dec_digits.simps [of "nat n"] nat_div_distrib nat_mod_distrib)
    have "n div 10 \<le> 0 \<Longrightarrow> dec_digits (nat (n div 10)) = []" by simp
    with "1" True dd show ?thesis
      by (auto simp: itoa_fill.simps [of cap n buf])
  next
    case False
    then show ?thesis
      using dec_digits_nonempty [of "nat n"]
      by (cases "0 < n"; cases "dec_digits (nat n)") (auto simp: itoa_fill.simps [of cap n buf])
  qed
qed

end
