(* ===== verification/Go_Net.thy ===== *)
theory Go_Net
  imports Go_Strings
begin

text \<open>
  The part of Go's \<open>net\<close> and \<open>net/netip\<close> packages the program uses: \<open>netip.ParseAddr\<close> (under
  \<open>net.ParseIP\<close>, \<open>net.ParseCIDR\<close> and bracketed URL hosts), \<open>IPNet.Contains\<close> and
  \<open>net.SplitHostPort\<close>. An address is a list of octets, four or sixteen of them.
\<close>

section \<open>Parsing addresses\<close>

datatype addr = V4 "nat list" | V6 "nat list" bytes  \<comment> \<open>the octets, and the zone of an IPv6 address\<close>

text \<open>One field of a dotted address: digits without a leading zero, at most 255.\<close>

definition octet :: "bytes \<Rightarrow> nat option" where
  "octet p =
     (if p = [] \<or> (1 < length p \<and> hd p = CHR ''0'') then None
      else case digits_val 0 p of
             None \<Rightarrow> None
           | Some v \<Rightarrow> if v \<le> 255 then Some (nat v) else None)"

fun all_some :: "'a option list \<Rightarrow> 'a list option" where
  "all_some [] = Some []"
| "all_some (None # xs) = None"
| "all_some (Some x # xs) = map_option ((#) x) (all_some xs)"

definition parse_ipv4_fields :: "bytes \<Rightarrow> nat list option" where
  "parse_ipv4_fields s =
     (let ps = split_on CHR ''.'' s in
      if length ps = 4 then all_some (map octet ps) else None)"

definition hex_val :: "char \<Rightarrow> nat option" where
  "hex_val c =
     (let n = (of_char c :: nat) in
      if 48 \<le> n \<and> n \<le> 57 then Some (n - 48)
      else if 97 \<le> n \<and> n \<le> 102 then Some (n - 87)
      else if 65 \<le> n \<and> n \<le> 70 then Some (n - 55)
      else None)"

text \<open>The longest run of hexadecimal digits at the front, with its value.\<close>

fun hex_run :: "int \<Rightarrow> bytes \<Rightarrow> bytes \<times> int \<times> bytes" where
  "hex_run acc [] = ([], acc, [])"
| "hex_run acc (c # cs) =
     (case hex_val c of
        None \<Rightarrow> ([], acc, c # cs)
      | Some d \<Rightarrow> let (ds, v, rest) = hex_run (16 * acc + int d) cs in (c # ds, v, rest))"

definition field_octets :: "int \<Rightarrow> nat list" where
  "field_octets v = [nat (v div 256), nat (v mod 256)]"

text \<open>The loop of \<open>parseIPv6\<close>: \<open>ip\<close> holds the octets so far, \<open>ell\<close> the position of the ellipsis.
  It ends with the octets, the ellipsis and the unread rest.\<close>

function ipv6_loop :: "nat list \<Rightarrow> nat option \<Rightarrow> bytes \<Rightarrow> (nat list \<times> nat option \<times> bytes) option" where
  "ipv6_loop ip ell s =
     (if 16 \<le> length ip then Some (ip, ell, s)
      else let (ds, v, rest) = hex_run 0 s in
        if ds = [] \<or> 4 < length ds then None
        else if rest \<noteq> [] \<and> hd rest = CHR ''.'' then
          (if (ell = None \<and> length ip \<noteq> 12) \<or> 12 < length ip then None
           else map_option (\<lambda>fs. (ip @ fs, ell, [])) (parse_ipv4_fields s))
        else
          let ip' = ip @ field_octets v in
          (case rest of
             [] \<Rightarrow> Some (ip', ell, [])
           | c # r \<Rightarrow>
               if c \<noteq> CHR '':'' \<or> r = [] then None
               else if hd r = CHR '':'' then
                 (if ell \<noteq> None then None
                  else if tl r = [] then Some (ip', Some (length ip'), [])
                  else ipv6_loop ip' (Some (length ip')) (tl r))
               else ipv6_loop ip' ell r))"
  by pat_completeness auto
termination
  by (relation "measure (\<lambda>(ip, ell, s). 16 - length ip)") (auto simp: field_octets_def)

declare ipv6_loop.simps [simp del]

definition ipv6_finish :: "nat list \<Rightarrow> nat option \<Rightarrow> nat list option" where
  "ipv6_finish ip ell =
     (if length ip < 16 then
        (case ell of
           None \<Rightarrow> None
         | Some e \<Rightarrow> Some (take e ip @ replicate (16 - length ip) 0 @ drop e ip))
      else if ell \<noteq> None then None else Some ip)"

definition parse_ipv6_body :: "bytes \<Rightarrow> nat list option" where
  "parse_ipv6_body s =
     (if s = [CHR '':'', CHR '':''] then Some (replicate 16 0)
      else
        case (if has_prefix [CHR '':'', CHR '':''] s then ipv6_loop [] (Some 0) (drop 2 s)
              else ipv6_loop [] None s) of
          None \<Rightarrow> None
        | Some (ip, ell, rest) \<Rightarrow> if rest \<noteq> [] then None else ipv6_finish ip ell)"

definition parse_addr :: "bytes \<Rightarrow> addr option" where
  "parse_addr s =
     (case find (\<lambda>c. c \<in> {CHR ''.'', CHR '':'', CHR ''%''}) s of
        None \<Rightarrow> None
      | Some c \<Rightarrow>
          if c = CHR ''.'' then map_option V4 (parse_ipv4_fields s)
          else if c = CHR '':'' then
            (case cut_on CHR ''%'' s of
               None \<Rightarrow> map_option (\<lambda>ip. V6 ip []) (parse_ipv6_body s)
             | Some (a, zone) \<Rightarrow>
                 if zone = [] then None else map_option (\<lambda>ip. V6 ip zone) (parse_ipv6_body a))
          else None)"

section \<open>\<open>net.IP\<close>, \<open>net.IPNet\<close>\<close>

definition v4_in_6 :: "nat list" where
  "v4_in_6 = [0, 0, 0, 0, 0, 0, 0, 0, 0, 0, 255, 255]"

definition as16 :: "addr \<Rightarrow> nat list" where
  "as16 a = (case a of V4 ip \<Rightarrow> v4_in_6 @ ip | V6 ip z \<Rightarrow> ip)"

definition has_zone :: "addr \<Rightarrow> bool" where
  "has_zone a = (case a of V4 ip \<Rightarrow> False | V6 ip z \<Rightarrow> z \<noteq> [])"

text \<open>\<open>net.ParseIP\<close>: always the 16-octet form; \<open>None\<close> is nil.\<close>

definition parse_ip :: "bytes \<Rightarrow> nat list option" where
  "parse_ip s =
     (case parse_addr s of None \<Rightarrow> None | Some a \<Rightarrow> if has_zone a then None else Some (as16 a))"

text \<open>\<open>IP.To4\<close>.\<close>

definition to4 :: "nat list \<Rightarrow> nat list option" where
  "to4 ip = (if length ip = 4 then Some ip
             else if length ip = 16 \<and> take 12 ip = v4_in_6 then Some (drop 12 ip)
             else None)"

text \<open>\<open>net.CIDRMask(ones, 8 * n)\<close>: \<open>n\<close> octets with the first \<open>ones\<close> bits set.\<close>

fun cidr_mask :: "nat \<Rightarrow> nat \<Rightarrow> nat list" where
  "cidr_mask ones 0 = []"
| "cidr_mask ones (Suc n) = (256 - 2 ^ (8 - min 8 ones)) # cidr_mask (ones - 8) n"

definition mask_octets :: "nat list \<Rightarrow> nat list \<Rightarrow> nat list" where
  "mask_octets ip m = map2 (\<lambda>a b. and a b) ip m"

record ip_net =
  net_ip :: "nat list"
  net_mask :: "nat list"

text \<open>\<open>IP.Mask\<close> on a 16-octet address: with a 4-octet mask the address must be IPv4.\<close>

definition ip_mask :: "nat list \<Rightarrow> nat list \<Rightarrow> nat list" where
  "ip_mask ip m =
     (if length m = 4 \<and> length ip = 16 \<and> take 12 ip = v4_in_6 then mask_octets (drop 12 ip) m
      else if length ip \<noteq> length m then []
      else mask_octets ip m)"

definition mask_bits :: "bytes \<Rightarrow> nat option" where
  \<comment> \<open>\<open>dtoi\<close> on the whole mask text: non-empty, digits only, below \<open>0xFFFFFF\<close>\<close>
  "mask_bits m =
     (if m = [] then None
      else case digits_val 0 m of
             None \<Rightarrow> None
           | Some v \<Rightarrow> if v < 16777215 then Some (nat v) else None)"

definition parse_cidr :: "bytes \<Rightarrow> ip_net option" where
  "parse_cidr s =
     (case cut_on CHR ''/'' s of
        None \<Rightarrow> None
      | Some (a, m) \<Rightarrow>
          (case parse_addr a of
             None \<Rightarrow> None
           | Some ad \<Rightarrow>
               if has_zone ad then None
               else let octets = (case ad of V4 ip \<Rightarrow> 4 | V6 ip z \<Rightarrow> 16) in
                 (case mask_bits m of
                    None \<Rightarrow> None
                  | Some n \<Rightarrow>
                      if 8 * octets < n then None
                      else let mk = cidr_mask n octets in
                        Some \<lparr>net_ip = ip_mask (as16 ad) mk, net_mask = mk\<rparr>)))"

definition network_number_and_mask :: "ip_net \<Rightarrow> (nat list \<times> nat list) option" where
  "network_number_and_mask n =
     (case (case to4 (net_ip n) of
              Some ip \<Rightarrow> Some ip
            | None \<Rightarrow> if length (net_ip n) = 16 then Some (net_ip n) else None) of
        None \<Rightarrow> None
      | Some ip \<Rightarrow>
          if length (net_mask n) = 4 then (if length ip = 4 then Some (ip, net_mask n) else None)
          else if length (net_mask n) = 16 then
            (if length ip = 4 then Some (ip, drop 12 (net_mask n)) else Some (ip, net_mask n))
          else None)"

definition net_contains :: "ip_net \<Rightarrow> nat list \<Rightarrow> bool" where
  "net_contains n ip0 =
     (let ip = (case to4 ip0 of Some x \<Rightarrow> x | None \<Rightarrow> ip0) in
      case network_number_and_mask n of
        None \<Rightarrow> False
      | Some (nn, m) \<Rightarrow> length ip = length nn \<and> mask_octets nn m = mask_octets ip m)"

section \<open>\<open>net.SplitHostPort\<close>\<close>

text \<open>The index of the last occurrence of a byte.\<close>

fun last_index :: "char \<Rightarrow> bytes \<Rightarrow> nat option" where
  "last_index c [] = None"
| "last_index c (x # xs) =
     (case last_index c xs of
        Some i \<Rightarrow> Some (Suc i)
      | None \<Rightarrow> if x = c then Some 0 else None)"

fun index_of :: "char \<Rightarrow> bytes \<Rightarrow> nat option" where
  "index_of c [] = None"
| "index_of c (x # xs) = (if x = c then Some 0 else map_option Suc (index_of c xs))"

definition split_host_port :: "bytes \<Rightarrow> (bytes \<times> bytes) option" where
  "split_host_port hp =
     (case last_index CHR '':'' hp of
        None \<Rightarrow> None
      | Some i \<Rightarrow>
          if hp \<noteq> [] \<and> hd hp = CHR ''['' then
            (case index_of CHR '']'' hp of
               None \<Rightarrow> None
             | Some e \<Rightarrow>
                 if e + 1 \<noteq> i then None
                 else let host = take (e - 1) (drop 1 hp) in
                   if CHR ''['' \<in> set (drop 1 hp) \<or> CHR '']'' \<in> set (drop (e + 1) hp) then None
                   else Some (host, drop (i + 1) hp))
          else let host = take i hp in
            if CHR '':'' \<in> set host then None
            else if CHR ''['' \<in> set hp \<or> CHR '']'' \<in> set hp then None
            else Some (host, drop (i + 1) hp))"

section \<open>Shape of the results\<close>

lemma all_some_length: "all_some xs = Some ys \<Longrightarrow> length ys = length xs"
  by (induction xs arbitrary: ys rule: all_some.induct) auto

lemma parse_ipv4_fields_length: "parse_ipv4_fields s = Some ip \<Longrightarrow> length ip = 4"
  by (auto simp: parse_ipv4_fields_def Let_def dest!: all_some_length split: if_splits)

lemma length_mask_octets [simp]: "length (mask_octets a b) = min (length a) (length b)"
  by (simp add: mask_octets_def)

lemma length_cidr_mask [simp]: "length (cidr_mask n k) = k"
  by (induction n k rule: cidr_mask.induct) auto

text \<open>A parsed address is sixteen octets.\<close>

definition octets :: "nat list \<Rightarrow> bool" where
  "octets ip \<longleftrightarrow> list_all (\<lambda>n. n < 256) ip"

lemma octets_simps [simp]:
  "octets []" "octets (n # ip) \<longleftrightarrow> n < 256 \<and> octets ip" "octets (a @ b) \<longleftrightarrow> octets a \<and> octets b"
  "octets v4_in_6" "octets (replicate k 0)"
  by (auto simp: octets_def v4_in_6_def list_all_iff)

lemma octets_parts: "octets ip \<Longrightarrow> octets (take n ip)" "octets ip \<Longrightarrow> octets (drop n ip)"
  by (auto simp: octets_def list_all_iff dest: in_set_takeD in_set_dropD)

lemma all_some_octets: "all_some (map octet ps) = Some ip \<Longrightarrow> octets ip"
proof (induction ps arbitrary: ip)
  case Nil
  then show ?case by simp
next
  case (Cons p ps)
  then obtain n ns where n: "octet p = Some n" "all_some (map octet ps) = Some ns" "ip = n # ns"
    by (cases "octet p") auto
  have "n < 256" using n(1) by (auto simp: octet_def split: if_splits option.splits)
  with n Cons.IH show ?case by simp
qed

lemma parse_ipv4_fields_octets: "parse_ipv4_fields s = Some ip \<Longrightarrow> octets ip"
  by (auto simp: parse_ipv4_fields_def Let_def dest: all_some_octets split: if_splits)

lemma hex_val_less: "hex_val c = Some d \<Longrightarrow> d < 16"
  by (auto simp: hex_val_def Let_def split: if_splits)

lemma hex_run_bound:
  "hex_run acc s = (ds, v, rest) \<Longrightarrow> 0 \<le> acc \<Longrightarrow> 0 \<le> v \<and> v < (acc + 1) * 16 ^ length ds"
proof (induction acc s arbitrary: ds v rest rule: hex_run.induct)
  case (1 acc)
  then show ?case by simp
next
  case (2 acc c cs)
  show ?case
  proof (cases "hex_val c")
    case None
    with 2 show ?thesis by simp
  next
    case (Some d)
    then obtain ds' where r: "hex_run (16 * acc + int d) cs = (ds', v, rest)" "ds = c # ds'"
      using 2(2) by (auto split: prod.splits)
    have v: "0 \<le> v" "v < (16 * acc + int d + 1) * 16 ^ length ds'"
      using 2(1) [OF Some r(1)] 2(3) by simp_all
    note v(2)
    also have "\<dots> \<le> (16 * (acc + 1)) * 16 ^ length ds'"
      using hex_val_less [OF Some] by (intro mult_right_mono) simp_all
    finally show ?thesis using r(2) v(1) by (simp add: algebra_simps)
  qed
qed

lemma hex_run_field:
  assumes "hex_run 0 s = (ds, v, rest)" and "length ds \<le> 4"
  shows "octets (field_octets v)"
proof -
  have v: "0 \<le> v" "v < 16 ^ length ds" using hex_run_bound [OF assms(1)] by simp_all
  note v(2)
  also have "(16 :: int) ^ length ds \<le> 16 ^ 4" using assms(2) by (intro power_increasing) simp_all
  finally have "v div 256 < 256" by simp
  moreover have "0 \<le> v div 256" "0 \<le> v mod 256" "v mod 256 < 256" using v(1) by simp_all
  ultimately show ?thesis by (simp add: field_octets_def nat_less_iff)
qed

lemma length_field_octets [simp]: "length (field_octets v) = 2"
  by (simp add: field_octets_def)

definition part_ok :: "nat list \<Rightarrow> bool" where
  "part_ok ip \<longleftrightarrow> octets ip \<and> even (length ip) \<and> length ip \<le> 16"

lemma part_ok_field:
  assumes "part_ok ip" and "\<not> 16 \<le> length ip" and "octets (field_octets v)"
  shows "part_ok (ip @ field_octets v)"
proof -
  have "even (length ip)" "length ip < 16" using assms(1,2) by (simp_all add: part_ok_def)
  then have "length ip + 2 \<le> 16" by presburger
  with assms show ?thesis by (simp add: part_ok_def)
qed

lemma part_ok_dotted:
  assumes "part_ok ip" and "\<not> ((ell = None \<and> length ip \<noteq> 12) \<or> 12 < length ip)"
    and "parse_ipv4_fields s = Some fs"
  shows "part_ok (ip @ fs)"
  using assms parse_ipv4_fields_octets parse_ipv4_fields_length by (auto simp: part_ok_def)

lemma ipv6_loop_part:
  "ipv6_loop ip ell s = Some (ip', ell', rest) \<Longrightarrow> part_ok ip \<Longrightarrow> part_ok ip'"
proof (induction ip ell s rule: ipv6_loop.induct)
  case (1 ip ell s)
  obtain ds v r where h: "hex_run 0 s = (ds, v, r)" by (metis prod_cases3)
  show ?case
  proof (cases "16 \<le> length ip \<or> ds = [] \<or> 4 < length ds \<or> r \<noteq> [] \<and> hd r = CHR ''.''")
    case True
    then show ?thesis
      using "1.prems" h part_ok_dotted [of ip ell s]
      by (auto simp: ipv6_loop.simps [of ip ell s] split: if_splits)
  next
    case False
    then have new: "part_ok (ip @ field_octets v)"
      using "1.prems"(2) hex_run_field [OF h] by (intro part_ok_field) simp_all
    have not16: "\<not> 16 \<le> length ip" using False by simp
    have step: "ipv6_loop ip ell s = (case r of [] \<Rightarrow> Some (ip @ field_octets v, ell, [])
        | c # q \<Rightarrow> if c \<noteq> CHR '':'' \<or> q = [] then None
                  else if hd q = CHR '':'' then
                    (if ell \<noteq> None then None
                     else if tl q = [] then
                       Some (ip @ field_octets v, Some (length (ip @ field_octets v)), [])
                     else ipv6_loop (ip @ field_octets v)
                       (Some (length (ip @ field_octets v))) (tl q))
                  else ipv6_loop (ip @ field_octets v) ell q)"
    proof -
      have "(16 \<le> length ip) = False" "(ds = [] \<or> 4 < length ds) = False"
        "(r \<noteq> [] \<and> hd r = CHR ''.'') = False" using False by blast+
      then show ?thesis by (subst ipv6_loop.simps) (simp only: h Let_def prod.case if_False)
    qed
    show ?thesis
    proof (cases r)
      case Nil
      with "1.prems"(1) new step show ?thesis by simp
    next
      case (Cons c q)
      note pre = not16 h [symmetric] refl refl
      show ?thesis
      proof (cases "hd q = CHR '':''")
        case True
        then show ?thesis
          using "1.prems"(1) new step Cons False
            "1.IH"(1) [OF pre(1,2), of ds "(v, r)" v r _ c q]
          by (auto split: if_splits)
      next
        case colon: False
        then show ?thesis
          using "1.prems"(1) new step Cons False
            "1.IH"(2) [OF pre(1,2), of ds "(v, r)" v r _ c q]
          by (auto split: if_splits)
      qed
    qed
  qed
qed

lemma ipv6_finish_16: "ipv6_finish ip ell = Some ip' \<Longrightarrow> part_ok ip \<Longrightarrow> octets ip' \<and> length ip' = 16"
  by (auto simp: ipv6_finish_def part_ok_def octets_parts split: if_splits option.splits)

lemma parse_ipv6_body_16:
  assumes "parse_ipv6_body s = Some ip"
  shows "octets ip \<and> length ip = 16"
proof (cases "s = [CHR '':'', CHR '':'']")
  case True
  then have "parse_ipv6_body s = Some (replicate 16 0)" unfolding parse_ipv6_body_def by (rule if_P)
  with assms show ?thesis by auto
next
  case False
  have nil: "part_ok []" by (simp add: part_ok_def)
  from assms False show ?thesis
    by (auto simp: parse_ipv6_body_def split: option.splits prod.splits if_splits
        dest!: ipv6_finish_16 ipv6_loop_part [OF _ nil])
qed

lemma parse_addr_shape:
  assumes "parse_addr s = Some a"
  shows "octets (as16 a) \<and> length (as16 a) = 16"
proof -
  have 4: "octets ip \<and> length ip = 4" if "parse_ipv4_fields t = Some ip" for t ip
    using that parse_ipv4_fields_octets parse_ipv4_fields_length by blast
  from assms show ?thesis
    by (auto simp: parse_addr_def as16_def v4_in_6_def split: option.splits if_splits prod.splits
        dest!: 4 parse_ipv6_body_16)
qed

lemma parse_ip_shape: "parse_ip s = Some ip \<Longrightarrow> octets ip \<and> length ip = 16"
  using parse_addr_shape by (auto simp: parse_ip_def split: option.splits if_splits)

lemma and_255: "n < 256 \<Longrightarrow> and n 255 = (n :: nat)"
proof -
  assume "n < 256"
  have "and n (mask 8) = take_bit 8 n" by (simp add: take_bit_eq_mask)
  moreover have "mask 8 = (255 :: nat)" by (simp add: mask_eq_exp_minus_1)
  ultimately show ?thesis using \<open>n < 256\<close> by (simp add: take_bit_eq_mod)
qed

lemma mask_octets_full: "octets ip \<Longrightarrow> length ip = k \<Longrightarrow> mask_octets ip (replicate k 255) = ip"
  by (induction ip arbitrary: k) (auto simp: mask_octets_def and_255)

end
