(* ===== verification/Go_Url.thy ===== *)
theory Go_Url
  imports Go_Net
begin

text \<open>
  \<open>net/url.Parse\<close>, which decides whether a member's \<open>baseURL\<close> is an https URL and whether
  the target of a forwarded request can be built at all. The program uses two results: whether
  parsing fails, and the scheme; \<open>url_parse\<close> returns the lower-cased scheme, \<open>None\<close> for an
  error. All error paths of the library are here: control bytes, the missing scheme, the colon
  in a first path segment, user information, host and port, and malformed percent escapes in
  host, path and fragment.
\<close>

definition is_alpha :: "char \<Rightarrow> bool" where
  "is_alpha c \<longleftrightarrow> (let n = (of_char c :: nat) in (65 \<le> n \<and> n \<le> 90) \<or> (97 \<le> n \<and> n \<le> 122))"

definition is_ctl :: "char \<Rightarrow> bool" where
  "is_ctl c \<longleftrightarrow> (of_char c :: nat) < 32 \<or> (of_char c :: nat) = 127"

text \<open>\<open>getScheme\<close>: \<open>None\<close> is the error, otherwise the scheme (empty when there is none) and the
  rest.\<close>

fun scheme_scan :: "bytes \<Rightarrow> bytes \<Rightarrow> bytes \<Rightarrow> (bytes \<times> bytes) option" where
  "scheme_scan raw seen [] = Some ([], raw)"
| "scheme_scan raw seen (c # cs) =
     (if is_alpha c then scheme_scan raw (seen @ [c]) cs
      else if is_digit c \<or> c \<in> {CHR ''+'', CHR ''-'', CHR ''.''} then
        (if seen = [] then Some ([], raw) else scheme_scan raw (seen @ [c]) cs)
      else if c = CHR '':'' then (if seen = [] then None else Some (seen, cs))
      else Some ([], raw))"

section \<open>Percent escapes\<close>

datatype esc_mode = EncPath | EncHost | EncZone | EncUser | EncFragment

text \<open>\<open>shouldEscape\<close> in host and zone mode.\<close>

definition host_should_escape :: "char \<Rightarrow> bool" where
  "host_should_escape c \<longleftrightarrow>
     \<not> (is_alpha c \<or> is_digit c \<or> c \<in> set ''!$&()*+,;=:[]<>-_.~'' \<or> c = CHR 0x27 \<or> c = CHR 0x22)"

definition byte_char :: "nat \<Rightarrow> char" where
  "byte_char n = char_of n"

text \<open>\<open>unescape\<close>: \<open>None\<close> for a malformed or (in a host) forbidden escape.\<close>

fun unescape :: "esc_mode \<Rightarrow> bytes \<Rightarrow> bytes option" where
  "unescape md [] = Some []"
| "unescape md (c # cs) =
     (if c = CHR ''%'' then
        (case cs of
           a # b # rest \<Rightarrow>
             (case (hex_val a, hex_val b) of
                (Some x, Some y) \<Rightarrow>
                  if md = EncHost \<and> x < 8 \<and> (a, b) \<noteq> (CHR ''2'', CHR ''5'') then None
                  else if md = EncZone \<and> (a, b) \<noteq> (CHR ''2'', CHR ''5'') \<and> 16 * x + y \<noteq> 32
                       \<and> host_should_escape (byte_char (16 * x + y)) then None
                  else map_option ((#) (byte_char (16 * x + y))) (unescape md rest)
              | _ \<Rightarrow> None)
         | _ \<Rightarrow> None)
      else if (md = EncHost \<or> md = EncZone) \<and> (of_char c :: nat) < 128 \<and> host_should_escape c
        then None
      else map_option ((#) c) (unescape md cs))"

section \<open>Authority\<close>

definition valid_optional_port :: "bytes \<Rightarrow> bool" where
  "valid_optional_port p \<longleftrightarrow> p = [] \<or> (hd p = CHR '':'' \<and> list_all is_digit (tl p))"

definition valid_userinfo :: "bytes \<Rightarrow> bool" where
  "valid_userinfo s \<longleftrightarrow>
     list_all (\<lambda>c. is_alpha c \<or> is_digit c \<or> c \<in> set ''-._:~!$&()*+,;=%@'' \<or> c = CHR 0x27) s"

text \<open>The host text up to and from its first \<open>%25\<close> (the zone separator), if it has one.\<close>

fun zone_cut :: "bytes \<Rightarrow> bytes \<Rightarrow> (bytes \<times> bytes) option" where
  "zone_cut seen [] = None"
| "zone_cut seen (c # cs) =
     (if has_prefix ''%25'' (c # cs) then Some (seen, c # cs) else zone_cut (seen @ [c]) cs)"

definition host_ok :: "bytes \<Rightarrow> bool" where
  "host_ok host =
     (case last_index CHR ''['' host of
        Some o_idx \<Rightarrow>
          (case last_index CHR '']'' host of
             None \<Rightarrow> False
           | Some c_idx \<Rightarrow>
               let colon_port = drop (c_idx + 1) host;
                   hostname = drop (o_idx + 1) (take c_idx host);
                   un = (case zone_cut [] hostname of
                           Some (a, z) \<Rightarrow>
                             (case (unescape EncHost a, unescape EncZone z) of
                                (Some x, Some y) \<Rightarrow> Some (x @ y) | _ \<Rightarrow> None)
                         | None \<Rightarrow> unescape EncHost hostname)
               in valid_optional_port colon_port \<and> unescape EncHost colon_port \<noteq> None
                  \<and> (case un of
                       None \<Rightarrow> False
                     | Some h \<Rightarrow> (case parse_addr h of Some (V6 ip z) \<Rightarrow> True | _ \<Rightarrow> False)))
      | None \<Rightarrow>
          (case last_index CHR '':'' host of
             Some i \<Rightarrow> valid_optional_port (drop i host)
           | None \<Rightarrow> True)
          \<and> unescape EncHost host \<noteq> None)"

definition authority_ok :: "bytes \<Rightarrow> bool" where
  "authority_ok auth =
     (case last_index CHR ''@'' auth of
        None \<Rightarrow> host_ok auth
      | Some i \<Rightarrow>
          let user = take i auth in
          host_ok (drop (i + 1) auth) \<and> valid_userinfo user
          \<and> (case cut_on CHR '':'' user of
               None \<Rightarrow> unescape EncUser user \<noteq> None
             | Some (u, p) \<Rightarrow> unescape EncUser u \<noteq> None \<and> unescape EncUser p \<noteq> None))"

section \<open>The parser\<close>

definition cut_before :: "char \<Rightarrow> bytes \<Rightarrow> bytes" where
  "cut_before c s = takeWhile (\<lambda>x. x \<noteq> c) s"

definition drop_query :: "bytes \<Rightarrow> bytes" where
  "drop_query rest = cut_before CHR ''?'' rest"

definition parse_no_fragment :: "bytes \<Rightarrow> bytes option" where
  "parse_no_fragment raw =
     (if list_ex is_ctl raw then None
      else if raw = ''*'' then Some []
      else case scheme_scan raw [] raw of
        None \<Rightarrow> None
      | Some (sch, rest0) \<Rightarrow>
          let scheme = map lower_char sch; rest = drop_query rest0 in
          if \<not> has_prefix ''/'' rest \<and> scheme \<noteq> [] then Some scheme
          else if \<not> has_prefix ''/'' rest \<and> CHR '':'' \<in> set (cut_before CHR ''/'' rest) then None
          else if (scheme \<noteq> [] \<or> \<not> has_prefix ''///'' rest) \<and> has_prefix ''//'' rest then
            (let a = drop 2 rest; auth = cut_before CHR ''/'' a; path = drop (length auth) a in
             if authority_ok auth \<and> unescape EncPath path \<noteq> None then Some scheme else None)
          else if unescape EncPath rest \<noteq> None then Some scheme else None)"

definition url_parse :: "bytes \<Rightarrow> bytes option" where
  "url_parse raw =
     (let u = cut_before CHR ''#'' raw; frag = drop (length u + 1) raw in
      case parse_no_fragment u of
        None \<Rightarrow> None
      | Some sch \<Rightarrow> if frag = [] \<or> unescape EncFragment frag \<noteq> None then Some sch else None)"

end
