(* ===== verification/Pool.thy ===== *)
theory Pool
  imports Go_Url
begin

text \<open>
  \<open>internal/pool/types.go\<close> and the loading half of \<open>internal/pool/loader.go\<close>: the member list, its
  validation, the defaults filled in after validation. Reading the file and \<open>yaml.Unmarshal\<close>
  are arguments. What validation accepts is stated declaratively as \<open>pool_ok\<close> and proved
  equivalent.
\<close>

section \<open>Data\<close>

text \<open>\<open>MemberType\<close> is a string type; any string may come out of the file.\<close>

definition TypeAnthropicOAuth :: bytes where "TypeAnthropicOAuth = ''anthropic_oauth''"
definition TypeAnthropicAPI :: bytes where "TypeAnthropicAPI = ''anthropic_api''"
definition TypeOpenRouter :: bytes where "TypeOpenRouter = ''openrouter''"
definition TypeDeepSeek :: bytes where "TypeDeepSeek = ''deepseek''"
definition TypeGeneric :: bytes where "TypeGeneric = ''generic''"

lemmas member_types =
  TypeAnthropicOAuth_def TypeAnthropicAPI_def TypeOpenRouter_def TypeDeepSeek_def TypeGeneric_def

definition valid_types :: "bytes list" where
  "valid_types = [TypeAnthropicOAuth, TypeAnthropicAPI, TypeOpenRouter, TypeDeepSeek, TypeGeneric]"

record cred_ref =
  cred_env :: bytes
  cred_file :: bytes

record member =
  m_id :: bytes
  m_type :: bytes
  m_cred :: cred_ref
  m_base_url :: bytes
  m_model_map :: "(bytes \<times> bytes) list"
  m_weight :: int
  m_enabled :: "bool option"
  m_cooldown_sec :: int

definition is_enabled :: "member \<Rightarrow> bool" where
  "is_enabled m = (case m_enabled m of None \<Rightarrow> True | Some b \<Rightarrow> b)"

definition is_anthropic :: "member \<Rightarrow> bool" where
  "is_anthropic m \<longleftrightarrow> m_type m = TypeAnthropicOAuth \<or> m_type m = TypeAnthropicAPI"

record pool =
  p_members :: "member list"

section \<open>Validation\<close>

datatype pool_error =
    NoMembers
  | MissingId nat
  | DuplicateId bytes
  | InvalidType nat bytes bytes
  | CredRequired nat bytes
  | BaseUrlRequired nat bytes
  | BaseUrlNotHttps nat bytes bytes
  | NegativeWeight nat bytes

definition check_member :: "nat \<Rightarrow> bytes set \<Rightarrow> member \<Rightarrow> pool_error option" where
  "check_member i seen m =
     (if m_id m = [] then Some (MissingId i)
      else if m_id m \<in> seen then Some (DuplicateId (m_id m))
      else if m_type m \<notin> set valid_types then Some (InvalidType i (m_id m) (m_type m))
      else if cred_env (m_cred m) = [] \<and> cred_file (m_cred m) = [] then Some (CredRequired i (m_id m))
      else if m_base_url m = [] then Some (BaseUrlRequired i (m_id m))
      else if url_parse (m_base_url m) \<noteq> Some ''https''
        then Some (BaseUrlNotHttps i (m_id m) (m_base_url m))
      else if m_weight m < 0 then Some (NegativeWeight i (m_id m))
      else None)"

fun check_members :: "nat \<Rightarrow> bytes set \<Rightarrow> member list \<Rightarrow> pool_error option" where
  "check_members i seen [] = None"
| "check_members i seen (m # ms) =
     (case check_member i seen m of
        Some e \<Rightarrow> Some e
      | None \<Rightarrow> check_members (Suc i) (insert (m_id m) seen) ms)"

text \<open>\<open>Pool.Validate\<close>; \<open>None\<close> is the nil error.\<close>

definition validate :: "pool \<Rightarrow> pool_error option" where
  "validate p = (if p_members p = [] then Some NoMembers else check_members 0 {} (p_members p))"

text \<open>What a valid pool is, without the scan.\<close>

definition member_ok :: "member \<Rightarrow> bool" where
  "member_ok m \<longleftrightarrow>
     m_id m \<noteq> [] \<and> m_type m \<in> set valid_types
     \<and> (cred_env (m_cred m) \<noteq> [] \<or> cred_file (m_cred m) \<noteq> [])
     \<and> url_parse (m_base_url m) = Some ''https'' \<and> 0 \<le> m_weight m"

definition pool_ok :: "pool \<Rightarrow> bool" where
  "pool_ok p \<longleftrightarrow>
     p_members p \<noteq> [] \<and> list_all member_ok (p_members p) \<and> distinct (map m_id (p_members p))"

lemma url_parse_Nil: "url_parse [] = Some []"
  by code_simp

lemma check_member_None:
  "check_member i seen m = None \<longleftrightarrow> member_ok m \<and> m_id m \<notin> seen"
  by (auto simp: check_member_def member_ok_def url_parse_Nil)

lemma check_members_None:
  "check_members i seen ms = None \<longleftrightarrow>
     list_all member_ok ms \<and> distinct (map m_id ms) \<and> m_id ` set ms \<inter> seen = {}"
proof (induction ms arbitrary: i seen)
  case Nil
  then show ?case by simp
next
  case (Cons m ms)
  show ?case
  proof (cases "check_member i seen m")
    case None
    then have ok: "member_ok m" "m_id m \<notin> seen"
      using check_member_None [of i seen m] by simp_all
    have "check_members i seen (m # ms) = check_members (Suc i) (insert (m_id m) seen) ms"
      using None by simp
    with Cons.IH [of "Suc i" "insert (m_id m) seen"] ok show ?thesis by auto
  next
    case (Some e)
    then have "\<not> (member_ok m \<and> m_id m \<notin> seen)"
      using check_member_None [of i seen m] by simp
    with Some show ?thesis by auto
  qed
qed

lemma validate_None: "validate p = None \<longleftrightarrow> pool_ok p"
  by (auto simp: validate_def pool_ok_def check_members_None)

text \<open>Property C30: Validation accepts exactly the pools with at least one member, distinct non-empty ids,
  known types, a credential reference, an https base URL and non-negative weights.\<close>

theorem validate_iff: "validate p = None \<longleftrightarrow> pool_ok p"
  by (rule validate_None)

section \<open>Loading\<close>

definition default_member :: "member \<Rightarrow> member" where
  "default_member m =
     (let m1 = (if m_weight m = 0 then m\<lparr>m_weight := 1\<rparr> else m) in
      if m_cooldown_sec m1 = 0 then
        (if is_anthropic m1 then m1\<lparr>m_cooldown_sec := 18000\<rparr> else m1\<lparr>m_cooldown_sec := 60\<rparr>)
      else m1)"

definition apply_defaults :: "pool \<Rightarrow> pool" where
  "apply_defaults p = p\<lparr>p_members := map default_member (p_members p)\<rparr>"

datatype load_error = ReadError | ParseError | InvalidPool pool_error

text \<open>\<open>reload\<close> up to the store of the result, and \<open>LoadFile\<close>, share this body. \<open>content\<close> is
  what \<open>os.ReadFile\<close> returns and \<open>unmarshal\<close> is \<open>yaml.Unmarshal\<close> into a \<open>Pool\<close>; \<open>None\<close> is
  an error of either.\<close>

definition load_pool :: "(bytes \<Rightarrow> pool option) \<Rightarrow> bytes option \<Rightarrow> (load_error, pool) outcome" where
  "load_pool unmarshal content =
     (case content of
        None \<Rightarrow> Inl ReadError
      | Some b \<Rightarrow>
          (case unmarshal b of
             None \<Rightarrow> Inl ParseError
           | Some p \<Rightarrow>
               (case validate p of
                  Some e \<Rightarrow> Inl (InvalidPool e)
                | None \<Rightarrow> Inr (apply_defaults p))))"

text \<open>What holds of every pool the loader publishes.\<close>

definition active_ok :: "pool \<Rightarrow> bool" where
  "active_ok p \<longleftrightarrow> pool_ok p \<and> (\<forall>m \<in> set (p_members p). 1 \<le> m_weight m \<and> m_cooldown_sec m \<noteq> 0)"

lemma default_member_simps [simp]:
  "m_id (default_member m) = m_id m" "m_type (default_member m) = m_type m"
  "m_cred (default_member m) = m_cred m" "m_base_url (default_member m) = m_base_url m"
  "m_enabled (default_member m) = m_enabled m" "m_model_map (default_member m) = m_model_map m"
  "m_weight (default_member m) = (if m_weight m = 0 then 1 else m_weight m)"
  "m_cooldown_sec (default_member m) =
     (if m_cooldown_sec m = 0 then (if is_anthropic m then 18000 else 60) else m_cooldown_sec m)"
  by (simp_all add: default_member_def Let_def is_anthropic_def)

lemma default_member_ok: "member_ok m \<Longrightarrow> member_ok (default_member m)"
  by (simp add: member_ok_def)

lemma active_ok_defaults: "pool_ok p \<Longrightarrow> active_ok (apply_defaults p)"
  by (auto simp: active_ok_def pool_ok_def apply_defaults_def list_all_iff default_member_ok
      comp_def member_ok_def order_less_le)

lemma load_pool_Inr:
  "load_pool unmarshal content = Inr p \<longleftrightarrow>
     (\<exists>b q. content = Some b \<and> unmarshal b = Some q \<and> pool_ok q \<and> p = apply_defaults q)"
  by (auto simp: load_pool_def simp flip: validate_None split: option.splits)

lemma load_pool_ok: "load_pool unmarshal content = Inr p \<Longrightarrow> active_ok p"
  by (auto simp: load_pool_Inr active_ok_defaults)

text \<open>A pool that loads is valid and has its defaults: every weight is at least one and no
  cooldown is zero, so the router never sees a zero weight.\<close>

theorem load_pool_active_ok: "load_pool unmarshal content = Inr p \<Longrightarrow> active_ok p"
  by (rule load_pool_ok)

definition example_member :: member where
  "example_member = \<lparr>m_id = ''a'', m_type = ''generic'', m_cred = \<lparr>cred_env = ''K'', cred_file = []\<rparr>,
     m_base_url = ''https://h'', m_model_map = [], m_weight = 0, m_enabled = None,
     m_cooldown_sec = 0\<rparr>"

definition example_pool :: pool where
  "example_pool = \<lparr>p_members = [example_member]\<rparr>"

lemma example_pool_valid: "validate example_pool = None"
  by code_simp

theorem load_pool_active_ok_witness:
  "load_pool (\<lambda>b. Some example_pool) (Some ''x'') = Inr (apply_defaults example_pool)
   \<and> active_ok (apply_defaults example_pool)"
proof -
  have "load_pool (\<lambda>b. Some example_pool) (Some ''x'') = Inr (apply_defaults example_pool)"
    by (simp add: load_pool_def example_pool_valid)
  with load_pool_active_ok [OF this] show ?thesis by blast
qed

end
