(* ===== verification/Go_Header.thy ===== *)
theory Go_Header
  imports Go_Strings
begin

text \<open>
  \<open>net/http.Header\<close>: a multimap from canonical header names to lists of values. The methods the
  program calls (\<open>Get\<close>, \<open>Values\<close>, \<open>Set\<close>, \<open>Add\<close>, \<open>Del\<close>) canonicalise the name they are given;
  ranging over a header visits its entries in an unspecified order, here the order of the
  association list.

  The interface the request pipeline relies on is the locale \<open>header_ops\<close>; it is interpreted
  on these definitions at the end of the theory, and the credential-stripping and
  header-copying lemmas the proxy needs are proved inside it once.
\<close>

section \<open>Canonical names\<close>

text \<open>The bytes of an HTTP token.\<close>

definition token_num :: "nat \<Rightarrow> bool" where
  "token_num n \<longleftrightarrow>
     (48 \<le> n \<and> n \<le> 57) \<or> (65 \<le> n \<and> n \<le> 90) \<or> (97 \<le> n \<and> n \<le> 122)
     \<or> n \<in> {33, 35, 36, 37, 38, 39, 42, 43, 45, 46, 94, 95, 96, 124, 126}"

definition is_token_char :: "char \<Rightarrow> bool" where
  "is_token_char c \<longleftrightarrow> token_num (of_char c)"

definition upper_char :: "char \<Rightarrow> char" where
  "upper_char c = (if 97 \<le> (of_char c :: nat) \<and> (of_char c :: nat) \<le> 122
                   then char_of ((of_char c :: nat) - 32) else c)"

fun canon_loop :: "bool \<Rightarrow> bytes \<Rightarrow> bytes" where
  "canon_loop up [] = []"
| "canon_loop up (c # cs) =
     (if up then upper_char c else lower_char c) # canon_loop (c = CHR ''-'') cs"

text \<open>\<open>textproto.CanonicalMIMEHeaderKey\<close>: a name with a byte that no token has is left alone.\<close>

definition canon :: "bytes \<Rightarrow> bytes" where
  "canon k = (if list_all is_token_char k then canon_loop True k else k)"

section \<open>The multimap\<close>

type_synonym header = "(bytes \<times> bytes list) list"

definition hvalues :: "header \<Rightarrow> bytes \<Rightarrow> bytes list" where
  "hvalues h k = (case map_of h (canon k) of None \<Rightarrow> [] | Some vs \<Rightarrow> vs)"

definition hget :: "header \<Rightarrow> bytes \<Rightarrow> bytes" where
  "hget h k = (case hvalues h k of [] \<Rightarrow> [] | v # vs \<Rightarrow> v)"

definition hset :: "header \<Rightarrow> bytes \<Rightarrow> bytes \<Rightarrow> header" where
  "hset h k v = AList.update (canon k) [v] h"

definition hadd :: "header \<Rightarrow> bytes \<Rightarrow> bytes \<Rightarrow> header" where
  "hadd h k v = AList.update (canon k) (hvalues h k @ [v]) h"

definition hdel :: "header \<Rightarrow> bytes \<Rightarrow> header" where
  "hdel h k = AList.delete (canon k) h"

definition wf_header :: "header \<Rightarrow> bool" where
  "wf_header h \<longleftrightarrow> distinct (map fst h) \<and> (\<forall>k \<in> set (map fst h). canon k = k)"

section \<open>The interface\<close>

locale header_ops =
  fixes canonical :: "bytes \<Rightarrow> bytes"
    and vals :: "'h \<Rightarrow> bytes \<Rightarrow> bytes list"
    and get :: "'h \<Rightarrow> bytes \<Rightarrow> bytes"
    and put :: "'h \<Rightarrow> bytes \<Rightarrow> bytes \<Rightarrow> 'h"
    and add :: "'h \<Rightarrow> bytes \<Rightarrow> bytes \<Rightarrow> 'h"
    and del :: "'h \<Rightarrow> bytes \<Rightarrow> 'h"
  assumes get_vals: "get h k = (case vals h k of [] \<Rightarrow> [] | v # vs \<Rightarrow> v)"
    and vals_put: "vals (put h k v) k' = (if canonical k' = canonical k then [v] else vals h k')"
    and vals_add:
      "vals (add h k v) k' = (if canonical k' = canonical k then vals h k @ [v] else vals h k')"
    and vals_del: "vals (del h k) k' = (if canonical k' = canonical k then [] else vals h k')"
    and vals_canonical: "canonical k = canonical k' \<Longrightarrow> vals h k = vals h k'"
begin

lemmas header_specs = get_vals vals_put vals_add vals_del

text \<open>Adding all the values of an association list, the loop of every header copy.\<close>

definition add_all :: "(bytes \<times> bytes list) list \<Rightarrow> 'h \<Rightarrow> 'h" where
  "add_all kvs h = foldl (\<lambda>h (k, vs). foldl (\<lambda>h v. add h k v) h vs) h kvs"

lemma vals_add_values:
  "vals (foldl (\<lambda>h v. add h k v) h vs) k' =
     (if canonical k' = canonical k then vals h k @ vs else vals h k')"
proof (induction vs arbitrary: h)
  case Nil
  then show ?case by (simp add: vals_canonical [of k' k h])
next
  case (Cons v vs)
  then show ?case by (simp add: vals_add)
qed

lemma vals_add_all_absent:
  assumes "\<And>k. k \<in> set (map fst kvs) \<Longrightarrow> canonical k \<noteq> canonical k'"
  shows "vals (add_all kvs h) k' = vals h k'"
  using assms
proof (induction kvs arbitrary: h)
  case Nil
  then show ?case by (simp add: add_all_def)
next
  case (Cons kv kvs)
  obtain k vs where [simp]: "kv = (k, vs)" by force
  let ?h = "foldl (\<lambda>h v. add h k v) h vs"
  have "vals (add_all kvs ?h) k' = vals ?h k'"
    using Cons by simp
  also have "\<dots> = vals h k'"
    using Cons.prems [of k] by (auto simp: vals_add_values)
  finally show ?case by (simp add: add_all_def)
qed

lemma vals_add_all:
  assumes "distinct (map fst kvs)" and "\<And>k. k \<in> set (map fst kvs) \<Longrightarrow> canonical k = k"
    and "canonical (canonical k') = canonical k'"
  shows "vals (add_all kvs h) k' =
           vals h k' @ (case map_of kvs (canonical k') of None \<Rightarrow> [] | Some vs \<Rightarrow> vs)"
  using assms
proof (induction kvs arbitrary: h)
  case Nil
  then show ?case by (simp add: add_all_def)
next
  case (Cons kv kvs)
  obtain k vs where [simp]: "kv = (k, vs)" by force
  let ?h = "foldl (\<lambda>h v. add h k v) h vs"
  have step: "add_all (kv # kvs) h = add_all kvs ?h" by (simp add: add_all_def)
  have ck: "canonical k = k" using Cons.prems(2) by simp
  show ?case
  proof (cases "canonical k' = k")
    case True
    have "vals (add_all kvs ?h) k' = vals ?h k'"
      using Cons.prems True by (intro vals_add_all_absent) force
    also have "\<dots> = vals h k' @ vs"
      using True ck vals_canonical [of k k' h] by (simp add: vals_add_values)
    finally show ?thesis using True step by simp
  next
    case False
    then have "vals ?h k' = vals h k'" using ck by (simp add: vals_add_values)
    moreover have "vals (add_all kvs ?h) k' =
        vals ?h k' @ (case map_of kvs (canonical k') of None \<Rightarrow> [] | Some vs \<Rightarrow> vs)"
      using Cons.prems by (intro Cons.IH) auto
    ultimately show ?thesis using False step by (simp add: eq_commute)
  qed
qed

text \<open>A name that is deleted and never added again has no value, whatever else is set.\<close>

lemma get_after_del: "canonical k' = canonical k \<Longrightarrow> get (del h k) k' = []"
  by (simp add: header_specs)

lemma get_after_put: "canonical k' = canonical k \<Longrightarrow> get (put h k v) k' = v"
  by (simp add: header_specs)

lemma get_put_other: "canonical k' \<noteq> canonical k \<Longrightarrow> get (put h k v) k' = get h k'"
  by (simp add: header_specs)

end

interpretation hdr: header_ops canon hvalues hget hset hadd hdel
  by unfold_locales
    (auto simp: hget_def hvalues_def hset_def hadd_def hdel_def split: list.splits option.splits)

lemma of_char_upper [simp]:
  "(of_char (upper_char c) :: nat) =
     (if 97 \<le> (of_char c :: nat) \<and> (of_char c :: nat) \<le> 122 then of_char c - 32 else of_char c)"
  by (auto simp: upper_char_def of_char_of intro!: mod_less)

lemma upper_upper [simp]: "upper_char (upper_char c) = upper_char c"
  by (subst upper_char_def) auto

lemma lower_lower [simp]: "lower_char (lower_char c) = lower_char c"
  by (subst lower_char_def) auto

lemma dash_upper [simp]: "upper_char c = CHR ''-'' \<longleftrightarrow> c = CHR ''-''"
  by (auto simp: char_eq_nat)

lemma dash_lower [simp]: "lower_char c = CHR ''-'' \<longleftrightarrow> c = CHR ''-''"
  by (auto simp: char_eq_nat)

lemma canon_loop_idem: "canon_loop up (canon_loop up k) = canon_loop up k"
  by (induction k arbitrary: up) auto

lemma token_num_letters:
  "97 \<le> n \<Longrightarrow> n \<le> 122 \<Longrightarrow> token_num n" "97 \<le> n \<Longrightarrow> n \<le> 122 \<Longrightarrow> token_num (n - 32)"
  "65 \<le> n \<Longrightarrow> n \<le> 90 \<Longrightarrow> token_num n" "65 \<le> n \<Longrightarrow> n \<le> 90 \<Longrightarrow> token_num (n + 32)"
  unfolding token_num_def by linarith+

lemma token_upper [simp]: "is_token_char (upper_char c) = is_token_char c"
  by (auto simp: is_token_char_def token_num_letters)

lemma token_lower [simp]: "is_token_char (lower_char c) = is_token_char c"
  by (auto simp: is_token_char_def token_num_letters)

lemma canon_loop_token: "list_all is_token_char (canon_loop up k) = list_all is_token_char k"
  by (induction k arbitrary: up) auto

lemma canon_idem [simp]: "canon (canon k) = canon k"
  by (simp add: canon_def canon_loop_token canon_loop_idem)

lemma wf_header_Nil [simp]: "wf_header []"
  by (simp add: wf_header_def)

lemma wf_header_update: "wf_header h \<Longrightarrow> canon k = k \<Longrightarrow> wf_header (AList.update k vs h)"
  using dom_update [of k vs h] unfolding wf_header_def by auto

lemma wf_header_ops [simp]:
  "wf_header h \<Longrightarrow> wf_header (hset h k v)" "wf_header h \<Longrightarrow> wf_header (hadd h k v)"
  "wf_header h \<Longrightarrow> wf_header (hdel h k)"
  by (simp_all add: hset_def hadd_def wf_header_update)
    (auto simp: wf_header_def hdel_def delete_keys distinct_removeAll)

text \<open>Copying a header entry by entry copies its values.\<close>

lemma add_all_values: "wf_header h \<Longrightarrow> hvalues (hdr.add_all h []) k = hvalues h k"
  using hdr.vals_add_all [of h k "[]"] by (auto simp: wf_header_def hvalues_def)

end
