(* ===== verification/Metrics.thy ===== *)
theory Metrics
  imports Proem_Prelude
begin

text \<open>
  \<open>internal/metrics/metrics.go\<close>: the collectors, with the names, kinds and labels they are registered
  under. A collector's state is the log of the calls made on it, so the model keeps one log of
  \<open>metric_event\<close>s, oldest first; \<open>counter\<close>, \<open>tokens_total\<close>, \<open>thinking_total\<close> and \<open>gauge\<close> read the values
  a scrape would show from it. The client library panics on a duplicate name, on a wrong number of
  label values and on a negative addition to a counter; \<open>well_formed_event\<close> excludes the last two.
\<close>

datatype metric_event =
    Requests bytes bytes bytes            \<comment> \<open>client, member, code\<close>
  | Failovers bytes bytes bytes           \<comment> \<open>client, from member, reason\<close>
  | Tokens bytes bytes bytes int          \<comment> \<open>client, member, type, added\<close>
  | Latency bytes bytes                   \<comment> \<open>client, member; one observation\<close>
  | CooldownGauge bytes int               \<comment> \<open>member, value set\<close>
  | StickyHits bytes                      \<comment> \<open>result\<close>
  | ThinkingTokens bytes bytes int        \<comment> \<open>client, member, added\<close>
  | AuthFailures bytes                    \<comment> \<open>reason\<close>
  | ConfigReloads bytes                   \<comment> \<open>result\<close>

type_synonym metric_log = "metric_event list"

section \<open>The collectors\<close>

datatype metric_kind = CounterVec | HistogramVec | GaugeVec

record collector =
  co_name :: bytes
  co_kind :: metric_kind
  co_labels :: "bytes list"

definition vec :: "metric_kind \<Rightarrow> bytes \<Rightarrow> bytes list \<Rightarrow> collector" where
  "vec kind name labels = \<lparr>co_name = name, co_kind = kind, co_labels = labels\<rparr>"

fun collector_of :: "metric_event \<Rightarrow> collector" where
  "collector_of (Requests c m code) = vec CounterVec ''proem_requests_total'' [''client'', ''member'', ''code'']"
| "collector_of (Failovers c m r) = vec CounterVec ''proem_failovers_total'' [''client'', ''from_member'', ''reason'']"
| "collector_of (Tokens c m k n) = vec CounterVec ''proem_tokens_total'' [''client'', ''member'', ''type'']"
| "collector_of (Latency c m) = vec HistogramVec ''proem_upstream_latency_seconds'' [''client'', ''member'']"
| "collector_of (CooldownGauge m v) = vec GaugeVec ''proem_member_cooldown'' [''member'']"
| "collector_of (StickyHits r) = vec CounterVec ''proem_sticky_hits_total'' [''result'']"
| "collector_of (ThinkingTokens c m n) = vec CounterVec ''proem_thinking_tokens_total'' [''client'', ''member'']"
| "collector_of (AuthFailures r) = vec CounterVec ''proem_auth_failures_total'' [''reason'']"
| "collector_of (ConfigReloads r) = vec CounterVec ''proem_config_reloads_total'' [''result'']"

text \<open>The arguments of \<open>WithLabelValues\<close>, and what is added to a counter.\<close>

fun label_values :: "metric_event \<Rightarrow> bytes list" where
  "label_values (Requests c m code) = [c, m, code]"
| "label_values (Failovers c m r) = [c, m, r]"
| "label_values (Tokens c m k n) = [c, m, k]"
| "label_values (Latency c m) = [c, m]"
| "label_values (CooldownGauge m v) = [m]"
| "label_values (StickyHits r) = [r]"
| "label_values (ThinkingTokens c m n) = [c, m]"
| "label_values (AuthFailures r) = [r]"
| "label_values (ConfigReloads r) = [r]"

fun added :: "metric_event \<Rightarrow> int" where
  "added (Tokens c m k n) = n"
| "added (ThinkingTokens c m n) = n"
| "added (CooldownGauge m v) = 0"
| "added (Latency c m) = 0"
| "added _ = 1"

definition well_formed_event :: "metric_event \<Rightarrow> bool" where
  "well_formed_event e \<longleftrightarrow>
     length (label_values e) = length (co_labels (collector_of e)) \<and> 0 \<le> added e"

text \<open>Only an addition of tokens could go wrong, and no two collectors share a name.\<close>

lemma well_formed_event_iff: "well_formed_event e \<longleftrightarrow> 0 \<le> added e"
  by (cases e) (simp_all add: well_formed_event_def vec_def)

lemma collectors_distinct:
  "co_name (collector_of e) = co_name (collector_of e') \<Longrightarrow> collector_of e = collector_of e'"
  by (cases e; cases e') (simp_all add: vec_def)

section \<open>Reading the log\<close>

text \<open>How often a counter was incremented, as its exact label set occurs in the log.\<close>

definition counter :: "metric_event \<Rightarrow> metric_log \<Rightarrow> nat" where
  "counter e log = count_list log e"

fun token_amount :: "bytes \<Rightarrow> bytes \<Rightarrow> bytes \<Rightarrow> metric_event \<Rightarrow> int" where
  "token_amount c m k (Tokens c' m' k' n) = (if c = c' \<and> m = m' \<and> k = k' then n else 0)"
| "token_amount c m k _ = 0"

text \<open>The value of \<open>proem_tokens_total\<close> for one label set.\<close>

definition tokens_total :: "bytes \<Rightarrow> bytes \<Rightarrow> bytes \<Rightarrow> metric_log \<Rightarrow> int" where
  "tokens_total c m k log = (\<Sum>e\<leftarrow>log. token_amount c m k e)"

fun thinking_amount :: "bytes \<Rightarrow> bytes \<Rightarrow> metric_event \<Rightarrow> int" where
  "thinking_amount c m (ThinkingTokens c' m' n) = (if c = c' \<and> m = m' then n else 0)"
| "thinking_amount c m _ = 0"

definition thinking_total :: "bytes \<Rightarrow> bytes \<Rightarrow> metric_log \<Rightarrow> int" where
  "thinking_total c m log = (\<Sum>e\<leftarrow>log. thinking_amount c m e)"

fun gauge_sets :: "bytes \<Rightarrow> metric_log \<Rightarrow> int list" where
  "gauge_sets m [] = []"
| "gauge_sets m (CooldownGauge m' v # log) = (if m = m' then v # gauge_sets m log else gauge_sets m log)"
| "gauge_sets m (_ # log) = gauge_sets m log"

text \<open>The gauge a scrape shows for a member: the last value set, \<open>None\<close> while it has no series.\<close>

definition gauge :: "bytes \<Rightarrow> metric_log \<Rightarrow> int option" where
  "gauge m log = (case rev (gauge_sets m log) of [] \<Rightarrow> None | v # _ \<Rightarrow> Some v)"

text \<open>The members failed over from, and the members whose latency was observed, in order.\<close>

fun failed_member :: "metric_event \<Rightarrow> bytes list" where
  "failed_member (Failovers c m r) = [m]"
| "failed_member _ = []"

definition failed_over :: "metric_log \<Rightarrow> bytes list" where
  "failed_over log = concat (map failed_member log)"

fun observed_member :: "metric_event \<Rightarrow> bytes list" where
  "observed_member (Latency c m) = [m]"
| "observed_member _ = []"

definition observed :: "metric_log \<Rightarrow> bytes list" where
  "observed log = concat (map observed_member log)"

lemma failed_over_simps [simp]:
  "failed_over [] = []" "failed_over (e # log) = failed_member e @ failed_over log"
  "failed_over (a @ b) = failed_over a @ failed_over b"
  by (simp_all add: failed_over_def)

lemma observed_simps [simp]:
  "observed [] = []" "observed (e # log) = observed_member e @ observed log"
  "observed (a @ b) = observed a @ observed b"
  by (simp_all add: observed_def)

lemma tokens_total_append [simp]:
  "tokens_total c m k (a @ b) = tokens_total c m k a + tokens_total c m k b"
  by (simp add: tokens_total_def)

lemma thinking_total_append [simp]:
  "thinking_total c m (a @ b) = thinking_total c m a + thinking_total c m b"
  by (simp add: thinking_total_def)

lemma gauge_sets_append [simp]: "gauge_sets m (a @ b) = gauge_sets m a @ gauge_sets m b"
  by (induction m a rule: gauge_sets.induct) auto

end
