(* ===== verification/Http.thy ===== *)
theory Http
  imports Go_Header Metrics
begin

text \<open>
  The \<open>net/http\<close> values a request is handled with: the incoming request, the upstream request and
  response, and the effects a handler has, kept in one record \<open>rstate\<close>: the outside world (Redis,
  upstreams, files, the caller's connection), the calls made on the response writer, the metrics
  and log lines, and the request scope the middleware shares.

  \<open>deliver\<close> gives the calls on the response writer their \<open>net/http\<close> meaning, what the caller
  receives.
\<close>

section \<open>Readers\<close>

text \<open>A body to be read: the chunks its \<open>Read\<close> calls deliver, and whether it then ends with an error
  instead of \<open>io.EOF\<close>.\<close>

record reader =
  rd_chunks :: "bytes list"
  rd_fails :: bool

definition read_all :: "reader \<Rightarrow> bytes" where
  "read_all rd = concat (rd_chunks rd)"

text \<open>A \<open>bytes.Reader\<close> read through a 32 KiB buffer.\<close>

definition copy_buffer :: nat where "copy_buffer = 32 * 1024"

function cut_chunks :: "nat \<Rightarrow> bytes \<Rightarrow> bytes list" where
  "cut_chunks n b = (if b = [] \<or> n = 0 then [] else take n b # cut_chunks n (drop n b))"
  by pat_completeness auto
termination
  by (relation "measure (\<lambda>(n, b). length b)") auto

declare cut_chunks.simps [simp del]

definition bytes_reader :: "bytes \<Rightarrow> reader" where
  "bytes_reader b = \<lparr>rd_chunks = cut_chunks copy_buffer b, rd_fails = False\<rparr>"

lemma concat_cut_chunks: "0 < n \<Longrightarrow> concat (cut_chunks n b) = b"
proof (induction n b rule: cut_chunks.induct)
  case (1 n b)
  show ?case
  proof (cases "b = []")
    case True
    then show ?thesis by (simp add: cut_chunks.simps [of n "[]"])
  next
    case False
    with "1" show ?thesis by (simp add: cut_chunks.simps [of n b])
  qed
qed

lemma read_all_bytes_reader [simp]: "read_all (bytes_reader b) = b"
  by (simp add: read_all_def bytes_reader_def concat_cut_chunks copy_buffer_def)

section \<open>Requests and responses\<close>

record request =
  rq_method :: bytes
  rq_path :: bytes                  \<comment> \<open>\<open>URL.Path\<close>, percent-decoded\<close>
  rq_query :: bytes                 \<comment> \<open>\<open>URL.RawQuery\<close>\<close>
  rq_header :: header
  rq_body :: "reader option"
  rq_remote :: bytes                \<comment> \<open>\<open>RemoteAddr\<close>\<close>
  rq_client :: "bytes option"       \<comment> \<open>the client name in the context\<close>

record up_request =
  up_method :: bytes
  up_url :: bytes
  up_header :: header
  up_body :: bytes

record up_response =
  rp_status :: int
  rp_header :: header
  rp_body :: reader

section \<open>Effects\<close>

text \<open>Calls on a \<open>ResponseWriter\<close>: the header map is changed, the status committed, bytes accepted,
  the connection flushed.\<close>

datatype wevent =
    HAdd bytes bytes
  | HSet bytes bytes
  | HDel bytes
  | WStatus int
  | WBody bytes
  | WFlush

text \<open>The middleware's \<open>scope\<close>.\<close>

record scope =
  sc_ip :: bytes
  sc_client :: bytes

datatype log_line =
    AuthLine bytes bytes bytes bytes bytes "(bytes \<times> bytes) list"
      \<comment> \<open>reason, ip, method, path, user agent, further attributes\<close>
  | AccessLine bytes bytes int int bytes bytes bytes
      \<comment> \<open>method, path, status, bytes, client, ip, user agent\<close>

record 'w rstate =
  rt_world :: 'w
  rt_out :: "wevent list"
  rt_metrics :: metric_log
  rt_log :: "log_line list"
  rt_scope :: "scope option"

definition emit :: "wevent list \<Rightarrow> 'w rstate \<Rightarrow> 'w rstate" where
  "emit es st = st\<lparr>rt_out := rt_out st @ es\<rparr>"

definition count :: "metric_log \<Rightarrow> 'w rstate \<Rightarrow> 'w rstate" where
  "count ms st = st\<lparr>rt_metrics := rt_metrics st @ ms\<rparr>"

definition log_line :: "log_line \<Rightarrow> 'w rstate \<Rightarrow> 'w rstate" where
  "log_line l st = st\<lparr>rt_log := rt_log st @ [l]\<rparr>"

text \<open>The caller's connection: how many bytes of a write it accepts, and whether the write
  succeeds.\<close>

type_synonym 'w conn = "bytes \<Rightarrow> 'w \<Rightarrow> (nat \<times> bool) \<times> 'w"

definition write_body :: "'w conn \<Rightarrow> bytes \<Rightarrow> 'w rstate \<Rightarrow> bool \<times> 'w rstate" where
  "write_body conn b st =
     (case conn b (rt_world st) of
        ((n, ok), w) \<Rightarrow> (ok, emit [WBody (take n b)] (st\<lparr>rt_world := w\<rparr>)))"

lemma rstate_simps [simp]:
  "rt_out (emit es st) = rt_out st @ es" "rt_world (emit es st) = rt_world st"
  "rt_metrics (emit es st) = rt_metrics st" "rt_scope (emit es st) = rt_scope st"
  "rt_log (emit es st) = rt_log st"
  "rt_out (count ms st) = rt_out st" "rt_world (count ms st) = rt_world st"
  "rt_metrics (count ms st) = rt_metrics st @ ms" "rt_scope (count ms st) = rt_scope st"
  "rt_log (count ms st) = rt_log st"
  "rt_out (log_line l st) = rt_out st" "rt_world (log_line l st) = rt_world st"
  "rt_metrics (log_line l st) = rt_metrics st" "rt_scope (log_line l st) = rt_scope st"
  "rt_log (log_line l st) = rt_log st @ [l]"
  by (simp_all add: emit_def count_def log_line_def)

section \<open>What the caller receives\<close>

record response =
  rs_header :: header
  rs_sent :: "(int \<times> header) option"       \<comment> \<open>the committed status and headers\<close>
  rs_body :: bytes

definition no_response :: response where
  "no_response = \<lparr>rs_header = [], rs_sent = None, rs_body = []\<rparr>"

text \<open>Only the first final status counts; a 1xx status other than 101 is informational; a body or a
  flush without a status commits 200.\<close>

definition commit :: "int \<Rightarrow> response \<Rightarrow> response" where
  "commit code r = (if rs_sent r = None then r\<lparr>rs_sent := Some (code, rs_header r)\<rparr> else r)"

fun deliver_event :: "wevent \<Rightarrow> response \<Rightarrow> response" where
  "deliver_event (HAdd k v) r = r\<lparr>rs_header := hadd (rs_header r) k v\<rparr>"
| "deliver_event (HSet k v) r = r\<lparr>rs_header := hset (rs_header r) k v\<rparr>"
| "deliver_event (HDel k) r = r\<lparr>rs_header := hdel (rs_header r) k\<rparr>"
| "deliver_event (WStatus c) r = (if 100 \<le> c \<and> c \<le> 199 \<and> c \<noteq> 101 then r else commit c r)"
| "deliver_event (WBody b) r = (let r' = commit 200 r in r'\<lparr>rs_body := rs_body r' @ b\<rparr>)"
| "deliver_event WFlush r = commit 200 r"

definition deliver :: "wevent list \<Rightarrow> response" where
  "deliver es = fold deliver_event es no_response"

text \<open>A well-formed use of the writer: the header is built, one status written, and then only body
  and flushes.\<close>

fun header_event :: "wevent \<Rightarrow> bool" where
  "header_event (HAdd k v) = True"
| "header_event (HSet k v) = True"
| "header_event (HDel k) = True"
| "header_event _ = False"

fun body_event :: "wevent \<Rightarrow> bool" where
  "body_event (WBody b) = True"
| "body_event WFlush = True"
| "body_event _ = False"

definition answers :: "wevent list \<Rightarrow> bool" where
  "answers es \<longleftrightarrow>
     (case dropWhile header_event es of WStatus c # bs \<Rightarrow> list_all body_event bs | _ \<Rightarrow> False)"

lemma answersI:
  assumes "list_all header_event hs" and "list_all body_event bs"
  shows "answers (hs @ WStatus c # bs)"
proof -
  have "dropWhile header_event (hs @ WStatus c # bs) = WStatus c # bs"
    using assms(1) by (induction hs) simp_all
  with assms(2) show ?thesis by (simp add: answers_def)
qed

lemma answers_iff:
  "answers es \<longleftrightarrow>
     (\<exists>hs c bs. es = hs @ WStatus c # bs \<and> list_all header_event hs \<and> list_all body_event bs)"
proof
  assume a: "answers es"
  then obtain c bs where d: "dropWhile header_event es = WStatus c # bs" "list_all body_event bs"
    by (auto simp: answers_def split: list.splits wevent.splits)
  have "es = takeWhile header_event es @ WStatus c # bs" using d by (metis takeWhile_dropWhile_id)
  moreover have "list_all header_event (takeWhile header_event es)"
    by (auto simp: list_all_iff dest: set_takeWhileD)
  ultimately show "\<exists>hs c bs. es = hs @ WStatus c # bs \<and> list_all header_event hs \<and> list_all body_event bs"
    using d(2) by blast
qed (auto intro: answersI)

fun event_body :: "wevent \<Rightarrow> bytes" where
  "event_body (WBody b) = b"
| "event_body _ = []"

definition body_of :: "wevent list \<Rightarrow> bytes" where
  "body_of es = concat (map event_body es)"

lemma body_of_simps [simp]:
  "body_of [] = []" "body_of (e # es) = event_body e @ body_of es" "body_of (a @ b) = body_of a @ body_of b"
  by (simp_all add: body_of_def)

lemma deliver_body_events:
  "list_all body_event es \<Longrightarrow> rs_sent r \<noteq> None \<Longrightarrow>
     fold deliver_event es r = r\<lparr>rs_body := rs_body r @ body_of es\<rparr>"
proof (induction es arbitrary: r)
  case Nil
  then show ?case by simp
next
  case (Cons e es)
  then have "deliver_event e r = r\<lparr>rs_body := rs_body r @ event_body e\<rparr>"
    by (cases e) (auto simp: commit_def)
  with Cons show ?case by simp
qed

lemma deliver_header_events:
  "list_all header_event hs \<Longrightarrow>
     rs_sent (fold deliver_event hs r) = rs_sent r \<and> rs_body (fold deliver_event hs r) = rs_body r"
proof (induction hs arbitrary: r)
  case Nil
  then show ?case by simp
next
  case (Cons e hs)
  then show ?case by (cases e) auto
qed

text \<open>A well-formed use delivers its status, the headers built before it, and its body.\<close>

lemma deliver_answer:
  assumes "list_all header_event hs" and "list_all body_event bs" and "200 \<le> c \<or> c = 101"
  shows "rs_sent (deliver (hs @ WStatus c # bs)) = Some (c, rs_header (fold deliver_event hs no_response))
    \<and> rs_body (deliver (hs @ WStatus c # bs)) = body_of bs"
proof -
  let ?r = "fold deliver_event hs no_response"
  have r: "rs_sent ?r = None" "rs_body ?r = []"
    using deliver_header_events [OF assms(1), of no_response] by (simp_all add: no_response_def)
  have "deliver_event (WStatus c) ?r = ?r\<lparr>rs_sent := Some (c, rs_header ?r)\<rparr>"
    using assms(3) r by (auto simp: commit_def)
  then show ?thesis
    using r deliver_body_events [OF assms(2), of "?r\<lparr>rs_sent := Some (c, rs_header ?r)\<rparr>"]
    by (simp add: deliver_def)
qed

end
