(* ===== verification/Forwarder.thy ===== *)
theory Forwarder
  imports Pool Http
begin

text \<open>
  \<open>internal/proxy/forwarder.go\<close>: the member's credential headers, the rewriting of the model name
  in a request body, the decimal status codes of the metric labels, and the reading of a
  request body. The environment and the file system are arguments.
\<close>

section \<open>Request bodies\<close>

text \<open>\<open>CloneBody\<close>: the bytes, or the error, and the body the request is left with.\<close>

definition clone_body :: "reader option \<Rightarrow> (unit, bytes) outcome \<times> reader option" where
  "clone_body body =
     (case body of
        None \<Rightarrow> (Inr [], None)
      | Some rd \<Rightarrow>
          if rd_fails rd then (Inl (), Some \<lparr>rd_chunks = [], rd_fails = True\<rparr>)
          else (Inr (read_all rd), Some (bytes_reader (read_all rd))))"

section \<open>Credential headers\<close>

definition oauth_beta :: bytes where "oauth_beta = ''oauth-2025-04-20''"
definition beta_header :: bytes where "beta_header = ''anthropic-beta''"

text \<open>The credential: the environment variable if one is named, else the file; \<open>None\<close> when the file
  cannot be read.\<close>

definition member_token :: "(bytes \<Rightarrow> bytes) \<Rightarrow> (bytes \<Rightarrow> bytes option) \<Rightarrow> member \<Rightarrow> bytes option" where
  "member_token getenv read_file m =
     (if cred_env (m_cred m) \<noteq> [] then Some (getenv (cred_env (m_cred m)))
      else if cred_file (m_cred m) \<noteq> [] then map_option trim_space (read_file (cred_file (m_cred m)))
      else Some [])"

definition token_headers :: "bytes \<Rightarrow> bytes \<Rightarrow> header" where
  "token_headers member_type token =
     (if member_type = TypeAnthropicOAuth then
        hset (hset [] ''Authorization'' (''Bearer '' @ token)) beta_header oauth_beta
      else if member_type = TypeAnthropicAPI then hset [] ''x-api-key'' token
      else hset [] ''Authorization'' (''Bearer '' @ token))"

definition auth_headers :: "(bytes \<Rightarrow> bytes) \<Rightarrow> (bytes \<Rightarrow> bytes option) \<Rightarrow> member \<Rightarrow> header option" where
  "auth_headers getenv read_file m =
     (case member_token getenv read_file m of
        None \<Rightarrow> None
      | Some token \<Rightarrow> Some (if token = [] then [] else token_headers (m_type m) token))"

section \<open>Model names\<close>

definition quote :: bytes where "quote = [CHR 0x22]"
definition apos :: bytes where "apos = [CHR 0x27]"

text \<open>The three spellings of the model field that are replaced.\<close>

definition model_field :: "bytes \<Rightarrow> bytes" where
  "model_field name = quote @ ''model'' @ quote @ '':'' @ quote @ name @ quote"

definition model_field_spaced :: "bytes \<Rightarrow> bytes" where
  "model_field_spaced name = quote @ ''model'' @ quote @ '': '' @ quote @ name @ quote"

definition model_field_apos :: "bytes \<Rightarrow> bytes" where
  "model_field_apos name = apos @ ''model'' @ apos @ '':'' @ apos @ name @ apos"

definition rewrite_one :: "bytes \<times> bytes \<Rightarrow> bytes \<Rightarrow> bytes" where
  "rewrite_one ft s =
     (case ft of (from_name, to_name) \<Rightarrow>
        replace_all (model_field_apos from_name) (model_field_apos to_name)
          (replace_all (model_field_spaced from_name) (model_field_spaced to_name)
            (replace_all (model_field from_name) (model_field to_name) s)))"

text \<open>The map is visited in the order of the association list, standing for any order.\<close>

definition rewrite_body :: "bytes \<Rightarrow> (bytes \<times> bytes) list \<Rightarrow> bytes" where
  "rewrite_body body model_map =
     (if model_map = [] \<or> body = [] then body else fold rewrite_one model_map body)"

section \<open>Decimal numbers\<close>

definition itoa :: "int \<Rightarrow> bytes option" where
  "itoa n = (if n = 0 then Some ''0'' else itoa_fill 20 n [])"

section \<open>Properties\<close>

lemma itoa_digits: "0 < n \<Longrightarrow> n \<le> max_int64 \<Longrightarrow> itoa n = Some (dec_digits (nat n))"
proof -
  assume n: "0 < n" "n \<le> max_int64"
  then have "nat n < 10 ^ 19" by simp
  then have "length (dec_digits (nat n)) \<le> 19" by (rule dec_digits_length)
  with n show ?thesis by (simp add: itoa_def itoa_fill_digits)
qed

text \<open>Property C34: The hand-written \<open>itoa\<close> never indexes outside its 20-byte buffer, and on every
  non-negative \<open>int\<close> it is the inverse of \<open>strconv.Atoi\<close>; a negative number is printed as the empty
  string.\<close>

theorem itoa_roundtrip:
  assumes "int64 n"
  shows "\<exists>s. itoa n = Some s \<and> (if 0 \<le> n then atoi s = Some n else s = [])"
proof -
  consider "n = 0" | "0 < n" | "n < 0" by linarith
  then show ?thesis
  proof cases
    case 1
    have "atoi ''0'' = Some 0" by code_simp
    with 1 show ?thesis by (simp add: itoa_def)
  next
    case 2
    have "atoi (dec_digits (nat n)) = Some n"
      using 2 assms dec_digits_nonempty dec_digits_all dec_digits_val [of "nat n"]
      by (intro atoi_digits) auto
    moreover have "itoa n = Some (dec_digits (nat n))"
      using 2 assms by (intro itoa_digits) (simp_all add: int64_def)
    ultimately show ?thesis using 2 by simp
  next
    case 3
    then show ?thesis by (simp add: itoa_def itoa_fill_digits)
  qed
qed

theorem itoa_roundtrip_witness: "itoa 529 = Some ''529'' \<and> atoi ''529'' = Some 529"
proof -
  have "int64 529" by (simp add: int64_def)
  from itoa_roundtrip [OF this] have "\<exists>s. itoa 529 = Some s \<and> atoi s = Some 529" by simp
  moreover have "itoa 529 = Some ''529''" by code_simp
  ultimately show ?thesis by simp
qed

text \<open>The spellings of a name the rewriting looks for.\<close>

definition mentions :: "bytes \<Rightarrow> bytes \<Rightarrow> bool" where
  "mentions s name \<longleftrightarrow>
     contains s (model_field name) \<or> contains s (model_field_spaced name)
     \<or> contains s (model_field_apos name)"

lemma rewrite_one_absent: "\<not> mentions s f \<Longrightarrow> rewrite_one (f, t) s = s"
  by (simp add: rewrite_one_def mentions_def replace_all_absent)

lemma rewrite_fold_absent: "\<forall>(f, t) \<in> set mm. \<not> mentions s f \<Longrightarrow> fold rewrite_one mm s = s"
  by (induction mm) (auto simp: rewrite_one_absent)

lemma has_prefix_cut: "xs @ ys = zs @ ts \<Longrightarrow> length zs \<le> length xs \<Longrightarrow> has_prefix zs xs"
  by (auto simp: append_eq_append_conv2 has_prefix_iff)

lemma replace_all_once:
  assumes "old \<noteq> []" and "\<not> contains (pre @ butlast old) old" and "\<not> contains post old"
  shows "replace_all old new (pre @ old @ post) = pre @ new @ post"
  using assms(2)
proof (induction pre)
  case Nil
  then show ?case using assms by (simp add: replace_all_at replace_all_absent)
next
  case (Cons c pre)
  have "\<not> has_prefix old (c # pre @ old @ post)"
  proof
    assume "has_prefix old (c # pre @ old @ post)"
    moreover have "old @ post = butlast old @ [last old] @ post"
      using append_butlast_last_id [OF assms(1)] by (metis append_assoc)
    ultimately have "has_prefix old (c # pre @ butlast old @ [last old] @ post)" by simp
    then obtain t where t: "(c # pre @ butlast old) @ ([last old] @ post) = old @ t"
      by (auto simp: has_prefix_iff)
    have "length old \<le> length (c # pre @ butlast old)" using assms(1) by (cases old) auto
    with t have "has_prefix old (c # pre @ butlast old)" by (rule has_prefix_cut)
    then show False using Cons.prems by simp
  qed
  moreover have "\<not> contains (pre @ butlast old) old" using Cons.prems by simp
  ultimately show ?case using Cons.IH by simp
qed

text \<open>Property C38: When the body names one mapped model, once, as the compact JSON field, and mentions no
  other key of the map before or after the replacement, exactly that field is rewritten and every
  other byte is kept, whatever order the map is visited in.\<close>

theorem rewrite_body_exact:
  assumes mem: "(f, t) \<in> set mm" and d: "distinct (map fst mm)"
    and once: "\<not> contains (pre @ butlast (model_field f)) (model_field f)"
      "\<not> contains post (model_field f)"
    and others: "\<forall>(f', t') \<in> set mm. f' \<noteq> f \<longrightarrow>
      \<not> mentions (pre @ model_field f @ post) f' \<and> \<not> mentions (pre @ model_field t @ post) f'"
    and self: "\<not> contains (pre @ model_field t @ post) (model_field_spaced f)"
      "\<not> contains (pre @ model_field t @ post) (model_field_apos f)"
  shows "rewrite_body (pre @ model_field f @ post) mm = pre @ model_field t @ post"
proof -
  obtain a b where mm: "mm = a @ (f, t) # b" using mem by (auto simp: in_set_conv_decomp)
  have other: "\<not> mentions (pre @ model_field f @ post) f' \<and> \<not> mentions (pre @ model_field t @ post) f'"
    if ft: "(f', t') \<in> set a \<union> set b" for f' t'
  proof -
    have "f' \<in> fst ` (set a \<union> set b)" using ft by (rule image_eqI [rotated]) simp
    moreover have "f \<notin> fst ` (set a \<union> set b)" using d mm by (simp add: image_Un)
    ultimately have "f' \<noteq> f" by blast
    moreover have "(f', t') \<in> set mm" using ft mm by auto
    ultimately show ?thesis using bspec [OF others, of "(f', t')"] by simp
  qed
  then have "\<forall>(f', t') \<in> set a. \<not> mentions (pre @ model_field f @ post) f'"
    and "\<forall>(f', t') \<in> set b. \<not> mentions (pre @ model_field t @ post) f'"
    by (auto dest: other)
  moreover have ne: "model_field f \<noteq> []" by (simp add: model_field_def quote_def)
  have "rewrite_one (f, t) (pre @ model_field f @ post) = pre @ model_field t @ post"
    using self replace_all_once [OF ne once, of "model_field t"]
    by (simp add: rewrite_one_def replace_all_absent)
  ultimately have "fold rewrite_one mm (pre @ model_field f @ post) = pre @ model_field t @ post"
    using mm by (simp add: rewrite_fold_absent)
  then show ?thesis using mm ne by (simp add: rewrite_body_def)
qed

theorem rewrite_body_exact_witness:
  "rewrite_body (''{'' @ model_field ''m1'' @ ''}'') [(''m2'', ''x''), (''m1'', ''y'')]
     = ''{'' @ model_field ''y'' @ ''}''"
  by (rule rewrite_body_exact) (simp, simp, code_simp+)

text \<open>The rewritten body may depend on the order in which the map is visited, which Go leaves
  open: with a chain of renamings the same request is sent under two different model names.\<close>

theorem rewrite_order_matters:
  "rewrite_body (model_field ''a'') [(''a'', ''b''), (''b'', ''c'')] = model_field ''c''
   \<and> rewrite_body (model_field ''a'') [(''b'', ''c''), (''a'', ''b'')] = model_field ''b''"
  by code_simp

lemma canon_constants:
  "canon ''Authorization'' = ''Authorization''" "canon ''x-api-key'' = ''X-Api-Key''"
  "canon beta_header = ''Anthropic-Beta''"
  by code_simp+

text \<open>The headers a credential of each type sets, in map order.\<close>

lemma token_headers_value:
  "token_headers ty token =
     (if ty = TypeAnthropicAPI then [(''X-Api-Key'', [token])]
      else (''Authorization'', [''Bearer '' @ token])
        # (if ty = TypeAnthropicOAuth then [(''Anthropic-Beta'', [oauth_beta])] else []))"
  by (simp add: token_headers_def hset_def canon_constants member_types)

text \<open>A member's credential is injected in the one header its type calls for: an API key only
  as \<open>x-api-key\<close>, every other type only as a bearer, and only an OAuth member sets the beta; an
  empty credential injects nothing.\<close>

theorem auth_headers_exact:
  assumes "auth_headers getenv read_file m = Some h" and "member_token getenv read_file m = Some token"
  shows "hvalues h ''Authorization'' =
           (if token \<noteq> [] \<and> m_type m \<noteq> TypeAnthropicAPI then [''Bearer '' @ token] else [])
    \<and> hvalues h ''x-api-key'' = (if token \<noteq> [] \<and> m_type m = TypeAnthropicAPI then [token] else [])
    \<and> hvalues h beta_header =
           (if token \<noteq> [] \<and> m_type m = TypeAnthropicOAuth then [oauth_beta] else [])
    \<and> length h \<le> 2"
proof -
  have "h = (if token = [] then [] else token_headers (m_type m) token)"
    using assms by (simp add: auth_headers_def)
  then show ?thesis by (simp add: hvalues_def canon_constants token_headers_value member_types)
qed

theorem auth_headers_exact_witness:
  "auth_headers (\<lambda>v. ''k1'') (\<lambda>f. None) (example_member\<lparr>m_type := TypeAnthropicAPI\<rparr>)
     = Some [(''X-Api-Key'', [''k1''])]
   \<and> hvalues [(''X-Api-Key'', [''k1''])] ''Authorization'' = []"
proof -
  let ?m = "example_member\<lparr>m_type := TypeAnthropicAPI\<rparr>"
  have "auth_headers (\<lambda>v. ''k1'') (\<lambda>f. None) ?m = Some [(''X-Api-Key'', [''k1''])]"
    "member_token (\<lambda>v. ''k1'') (\<lambda>f. None) ?m = Some ''k1''"
    by code_simp+
  from this auth_headers_exact [OF this] show ?thesis by simp
qed

end
