(* ===== verification/Failover.thy ===== *)
theory Failover
  imports Go_Header
begin

text \<open>
  \<open>internal/failover/detector.go\<close>: whether a member's response makes the proxy try the next
  member, and for how long the member is then skipped. \<open>MayFailover\<close> decides from status and
  headers whether the body has to be read at all; \<open>ShouldFailover\<close> is the final decision.
\<close>

definition failover_keywords :: "bytes list" where
  "failover_keywords = [''rate_limit'', ''overload'', ''oauth'', ''quota'', ''credit'', ''rate limit'',
               ''insufficient'']"

definition may_failover :: "int \<Rightarrow> header \<Rightarrow> bool" where
  "may_failover status headers =
     (if hget headers ''Retry-After'' \<noteq> [] then True
      else status = 429 \<or> status = 401 \<or> status = 529)"

definition should_failover :: "int \<Rightarrow> bytes \<Rightarrow> header \<Rightarrow> bool \<times> int \<times> bytes" where
  "should_failover status body headers =
     (let ra = hget headers ''Retry-After'' in
      if ra \<noteq> [] then
        (case atoi (trim_space ra) of
           Some ttl \<Rightarrow> if ttl > 0 then (True, ttl, ''retry-after'') else (True, 0, ''retry-after'')
         | None \<Rightarrow> (True, 0, ''retry-after''))
      else if status \<noteq> 429 \<and> status \<noteq> 401 \<and> status \<noteq> 529 then (False, 0, [])
      else (case find (\<lambda>kw. contains (to_lower body) kw) failover_keywords of
              Some kw \<Rightarrow> (True, 0, kw)
            | None \<Rightarrow> (False, 0, [])))"

definition cooldown_ttl :: "int \<Rightarrow> int \<Rightarrow> bool \<Rightarrow> int" where
  "cooldown_ttl detected_ttl member_cooldown is_anthropic =
     (if detected_ttl > 0 then detected_ttl
      else if member_cooldown > 0 then member_cooldown
      else if is_anthropic then 18000
      else 60)"

section \<open>Agreement of the two decisions\<close>

lemma should_failover_cases:
  assumes "should_failover st body h = (ok, ttl, reason)"
  obtains (header) "hget h ''Retry-After'' \<noteq> []" "ok" "0 \<le> ttl" "reason = ''retry-after''"
    | (keyword) "hget h ''Retry-After'' = []" "st \<in> {429, 401, 529}" "ok" "ttl = 0"
        "reason \<in> set failover_keywords" "contains (to_lower body) reason"
    | (none) "hget h ''Retry-After'' = []" "\<not> ok" "ttl = 0" "reason = []"
        "st \<in> {429, 401, 529} \<longrightarrow> (\<forall>kw \<in> set failover_keywords. \<not> contains (to_lower body) kw)"
  using assms
  by (auto simp: should_failover_def Let_def find_Some_iff find_None_iff
      split: if_splits option.splits)

lemma should_may: "fst (should_failover st body h) \<Longrightarrow> may_failover st h"
  by (auto simp: should_failover_def may_failover_def Let_def split: if_splits)

text \<open>Property C27: A response that does fail over is always one that \<open>MayFailover\<close> asks to buffer, so
  no response that ought to fail over is streamed to the client by mistake.\<close>

theorem should_implies_may:
  "fst (should_failover st body h) \<Longrightarrow> may_failover st h"
  by (rule should_may)

theorem should_implies_may_witness:
  "fst (should_failover 429 ''RATE_LIMIT hit'' []) \<and> may_failover 429 []"
proof -
  have "fst (should_failover 429 ''RATE_LIMIT hit'' [])" by code_simp
  with should_implies_may [OF this] show ?thesis by blast
qed

text \<open>The exact condition for failover: a \<open>Retry-After\<close> header whatever the status, or one
  of the three statuses with a keyword in the body read case-insensitively.\<close>

theorem should_failover_iff:
  "fst (should_failover st body h) \<longleftrightarrow>
     hget h ''Retry-After'' \<noteq> []
     \<or> st \<in> {429, 401, 529} \<and> list_ex (contains (to_lower body)) failover_keywords"
proof (cases "hget h ''Retry-After'' = []")
  case False
  then show ?thesis by (auto simp: should_failover_def Let_def split: option.splits)
next
  case True
  then have "fst (should_failover st body h) \<longleftrightarrow>
      st \<in> {429, 401, 529} \<and> find (contains (to_lower body)) failover_keywords \<noteq> None"
    by (auto simp: should_failover_def Let_def split: option.splits)
  with True show ?thesis by (auto simp: find_None_iff list_ex_iff)
qed

theorem should_failover_iff_witness:
  "fst (should_failover 401 ''OAuth expired'' []) \<and> \<not> fst (should_failover 429 ''busy'' [])"
proof -
  have "401 \<in> {429, 401, 529 :: int} \<and> list_ex (contains (to_lower ''OAuth expired'')) failover_keywords"
    by code_simp
  moreover have "hget [] ''Retry-After'' = [] \<and> \<not> list_ex (contains (to_lower ''busy'')) failover_keywords"
    by code_simp
  ultimately show ?thesis unfolding should_failover_iff by blast
qed

lemma should_failover_ttl_nonneg: "0 \<le> fst (snd (should_failover st body h))"
  by (auto simp: should_failover_def Let_def split: option.splits)

text \<open>A numeric \<open>Retry-After\<close> is the cooldown; otherwise the member's configured
  cooldown; otherwise the built-in default, five hours for Anthropic members. The result is
  always positive.\<close>

theorem cooldown_ttl_order:
  "cooldown_ttl d m a =
     (if 0 < d then d else if 0 < m then m else if a then 18000 else 60)
   \<and> 0 < cooldown_ttl d m a"
  by (simp add: cooldown_ttl_def)

end
