(* ===== verification/Store.thy ===== *)
theory Store
  imports Proem_Prelude
begin

text \<open>
  \<open>internal/store/redis.go\<close>: cooldown and session-affinity state in Redis. The Redis server and
  the go-redis client are not part of the program: they are a record of functions on an
  arbitrary world \<open>'w\<close>, so that time, expiry and other instances' writes may happen between any
  two calls. \<open>redis_ok\<close> states the documented behaviour the properties rely on, and \<open>mem_redis\<close>,
  a map with a clock, shows that it can hold.

  The world passes through every operation; \<open>None\<close> for the store is a nil store or a nil
  client, which every method treats alike.
\<close>

section \<open>The client\<close>

text \<open>The context a call is made with: the incoming request's (cancelled when the caller hangs up)
  or \<open>context.Background()\<close>.\<close>

datatype ctx = RequestCtx | BackgroundCtx

record 'w redis_client =
  rc_exists :: "ctx \<Rightarrow> bytes \<Rightarrow> 'w \<Rightarrow> int option \<times> 'w"                  \<comment> \<open>\<open>None\<close>: an error\<close>
  rc_mget :: "ctx \<Rightarrow> bytes list \<Rightarrow> 'w \<Rightarrow> bytes option list option \<times> 'w"
  rc_get :: "ctx \<Rightarrow> bytes \<Rightarrow> 'w \<Rightarrow> bytes option \<times> 'w"                  \<comment> \<open>a miss is an error\<close>
  rc_set :: "ctx \<Rightarrow> bytes \<Rightarrow> bytes \<Rightarrow> int \<Rightarrow> 'w \<Rightarrow> bool \<times> 'w"           \<comment> \<open>TTL in nanoseconds\<close>
  rc_close :: "'w \<Rightarrow> bool \<times> 'w"

type_synonym 'w store = "'w redis_client option"

definition cool_prefix :: bytes where "cool_prefix = ''cooldown:''"
definition sticky_prefix :: bytes where "sticky_prefix = ''sticky:''"

section \<open>Durations\<close>

definition second :: int where "second = 1000000000"
definition hour :: int where "hour = 3600 * second"

text \<open>\<open>time.Duration(n) * time.Second\<close>, a 64-bit product.\<close>

definition seconds :: "int \<Rightarrow> int" where
  "seconds n = wrap64 (n * second)"

section \<open>Operations\<close>

text \<open>\<open>New\<close>: \<open>parse_url\<close> is \<open>redis.ParseURL\<close> with the client \<open>redis.NewClient\<close> builds from its options, which
  connects lazily and so cannot fail. \<open>NewWithClient\<close> takes the client as it is.\<close>

definition store_new :: "(bytes \<Rightarrow> 'o option) \<Rightarrow> ('o \<Rightarrow> 'w redis_client) \<Rightarrow> bytes \<Rightarrow> (unit, 'w store) outcome" where
  "store_new parse_url new_client redis_url =
     (case parse_url redis_url of
        None \<Rightarrow> Inl ()
      | Some opt \<Rightarrow> Inr (Some (new_client opt)))"

definition new_with_client :: "'w redis_client option \<Rightarrow> 'w store" where
  "new_with_client c = c"

definition is_cooldown :: "'w store \<Rightarrow> ctx \<Rightarrow> bytes \<Rightarrow> 'w \<Rightarrow> bool \<times> 'w" where
  "is_cooldown s c member_id w =
     (case s of
        None \<Rightarrow> (False, w)
      | Some cl \<Rightarrow>
          (case rc_exists cl c (cool_prefix @ member_id) w of
             (None, w') \<Rightarrow> (False, w')
           | (Some n, w') \<Rightarrow> (n = 1, w')))"

text \<open>The result is whether the write succeeded (a nil error).\<close>

definition set_cooldown :: "'w store \<Rightarrow> ctx \<Rightarrow> bytes \<Rightarrow> int \<Rightarrow> 'w \<Rightarrow> bool \<times> 'w" where
  "set_cooldown s c member_id ttl w =
     (case s of
        None \<Rightarrow> (True, w)
      | Some cl \<Rightarrow> rc_set cl c (cool_prefix @ member_id) ''1'' ttl w)"

text \<open>\<open>FilterHealthy\<close>; an \<open>MGET\<close> answers one value per key, so pairing answers with ids is the
  code's indexing.\<close>

definition filter_healthy :: "'w store \<Rightarrow> ctx \<Rightarrow> bytes list \<Rightarrow> 'w \<Rightarrow> bytes list \<times> 'w" where
  "filter_healthy s c ids w =
     (case s of
        None \<Rightarrow> (ids, w)
      | Some cl \<Rightarrow>
          if ids = [] then (ids, w)
          else
            (case rc_mget cl c (map (\<lambda>id. cool_prefix @ id) ids) w of
               (None, w') \<Rightarrow> (ids, w')
             | (Some vals, w') \<Rightarrow> (map fst (filter (\<lambda>(id, v). v = None) (zip ids vals)), w')))"

definition get_sticky :: "'w store \<Rightarrow> ctx \<Rightarrow> bytes \<Rightarrow> 'w \<Rightarrow> bytes option \<times> 'w" where
  "get_sticky s c session w =
     (case s of
        None \<Rightarrow> (None, w)
      | Some cl \<Rightarrow>
          if session = [] then (None, w)
          else rc_get cl c (sticky_prefix @ session) w)"

definition set_sticky :: "'w store \<Rightarrow> ctx \<Rightarrow> bytes \<Rightarrow> bytes \<Rightarrow> int \<Rightarrow> 'w \<Rightarrow> bool \<times> 'w" where
  "set_sticky s c session member_id ttl w =
     (case s of
        None \<Rightarrow> (True, w)
      | Some cl \<Rightarrow>
          if session = [] then (True, w)
          else rc_set cl c (sticky_prefix @ session) member_id ttl w)"

definition store_close :: "'w store \<Rightarrow> 'w \<Rightarrow> bool \<times> 'w" where
  "store_close s w = (case s of None \<Rightarrow> (True, w) | Some cl \<Rightarrow> rc_close cl w)"

section \<open>The health filter as an interface\<close>

text \<open>
  What the router needs of the filter: it only removes ids. The router's index arithmetic is
  safe because of it: when an id is left, a member is left.
\<close>

locale health_filter =
  fixes healthy :: "bytes list \<Rightarrow> 'w \<Rightarrow> bytes list \<times> 'w"
  assumes only_removes: "set (fst (healthy ids w)) \<subseteq> set ids"
begin

definition surviving :: "('m \<Rightarrow> bytes) \<Rightarrow> 'm list \<Rightarrow> 'w \<Rightarrow> 'm list" where
  "surviving key ms w = filter (\<lambda>m. key m \<in> set (fst (healthy (map key ms) w))) ms"

lemma surviving_subset: "set (surviving key ms w) \<subseteq> set ms"
  by (auto simp: surviving_def)

lemma surviving_healthy: "m \<in> set (surviving key ms w) \<Longrightarrow> key m \<in> set (fst (healthy (map key ms) w))"
  by (simp add: surviving_def)

lemma surviving_nonempty:
  assumes "fst (healthy (map key ms) w) \<noteq> []"
  shows "surviving key ms w \<noteq> []"
proof -
  obtain i where i: "i \<in> set (fst (healthy (map key ms) w))"
    using assms by (meson last_in_set)
  then have "i \<in> set (map key ms)" using only_removes by blast
  then obtain m where "m \<in> set ms" "key m = i" by auto
  with i have "m \<in> set (surviving key ms w)" by (simp add: surviving_def)
  then show ?thesis by auto
qed

end

lemma filter_healthy_subset: "set (fst (filter_healthy s c ids w)) \<subseteq> set ids"
  by (auto simp: filter_healthy_def dest: set_zip_leftD split: option.splits prod.splits)

interpretation store_filter: health_filter "filter_healthy s c" for s :: "'w store" and c
  by unfold_locales (rule filter_healthy_subset)

section \<open>Documented behaviour of Redis\<close>

text \<open>
  \<open>live w\<close> is the set of live keys with their values in the world \<open>w\<close>. A successful \<open>MGET\<close>,
  \<open>EXISTS\<close> or \<open>GET\<close> reports the values live when it is made, and reading changes nothing; a
  successful \<open>SET\<close> with a positive TTL makes the key live and leaves the others.
\<close>

definition redis_ok :: "'w redis_client \<Rightarrow> ('w \<Rightarrow> bytes \<rightharpoonup> bytes) \<Rightarrow> bool" where
  "redis_ok cl live \<longleftrightarrow>
     (\<forall>c ks w vs w'. rc_mget cl c ks w = (Some vs, w') \<longrightarrow> vs = map (live w) ks \<and> live w' = live w)
   \<and> (\<forall>c k w n w'. rc_exists cl c k w = (Some n, w') \<longrightarrow>
         n = (if live w k = None then 0 else 1) \<and> live w' = live w)
   \<and> (\<forall>c k w v w'. rc_get cl c k w = (Some v, w') \<longrightarrow> live w k = Some v \<and> live w' = live w)
   \<and> (\<forall>c k v ttl w w'. rc_set cl c k v ttl w = (True, w') \<longrightarrow> 0 < ttl \<longrightarrow>
         live w' = (live w)(k \<mapsto> v))"

lemma redis_mget_ok:
  "redis_ok cl live \<Longrightarrow> rc_mget cl c ks w = (Some vs, w') \<Longrightarrow> vs = map (live w) ks"
  unfolding redis_ok_def by metis

lemma redis_get_ok:
  "redis_ok cl live \<Longrightarrow> rc_get cl c k w = (Some v, w') \<Longrightarrow> live w k = Some v"
  unfolding redis_ok_def by metis

lemma redis_set_ok:
  "redis_ok cl live \<Longrightarrow> rc_set cl c k v ttl w = (True, w') \<Longrightarrow> 0 < ttl \<Longrightarrow>
     live w' = (live w)(k \<mapsto> v)"
  unfolding redis_ok_def by metis

text \<open>An in-memory Redis: values with their expiry time, and a clock.\<close>

record mem_world =
  mw_data :: "bytes \<rightharpoonup> bytes \<times> int"
  mw_clock :: int

definition mem_live :: "mem_world \<Rightarrow> bytes \<rightharpoonup> bytes" where
  "mem_live w k =
     (case mw_data w k of None \<Rightarrow> None | Some (v, t) \<Rightarrow> if mw_clock w < t then Some v else None)"

definition mem_redis :: "mem_world redis_client" where
  "mem_redis =
     \<lparr>rc_exists = (\<lambda>c k w. (Some (if mem_live w k = None then 0 else 1), w)),
      rc_mget = (\<lambda>c ks w. (Some (map (mem_live w) ks), w)),
      rc_get = (\<lambda>c k w. (mem_live w k, w)),
      rc_set = (\<lambda>c k v ttl w. (True, w\<lparr>mw_data := (mw_data w)(k \<mapsto> (v, mw_clock w + ttl))\<rparr>)),
      rc_close = (\<lambda>w. (True, w))\<rparr>"

lemma mem_redis_ok: "redis_ok mem_redis mem_live"
  by (auto simp: redis_ok_def mem_redis_def mem_live_def split: option.splits if_splits)

definition mem_empty :: mem_world where
  "mem_empty = \<lparr>mw_data = Map.empty, mw_clock = 0\<rparr>"

section \<open>Properties\<close>

lemma filter_healthy_live:
  assumes "redis_ok cl live" and "rc_mget cl c (map (\<lambda>id. cool_prefix @ id) ids) w = (Some vs, w')"
  shows "fst (filter_healthy (Some cl) c ids w) = filter (\<lambda>id. live w (cool_prefix @ id) = None) ids"
proof -
  have vs: "vs = map (\<lambda>id. live w (cool_prefix @ id)) ids"
    using redis_mget_ok [OF assms] by (simp add: comp_def)
  have "map fst (filter (\<lambda>(id, v). v = None) (zip ids (map f ids))) = filter (\<lambda>id. f id = None) ids"
    for f :: "bytes \<Rightarrow> bytes option"
    by (induction ids) auto
  with assms(2) vs show ?thesis by (simp add: filter_healthy_def)
qed

text \<open>Property C21: With an answering Redis, the filter keeps exactly the ids without a live cooldown key,
  in order.\<close>

theorem filter_healthy_exact:
  assumes "redis_ok cl live" and "rc_mget cl c (map (\<lambda>id. cool_prefix @ id) ids) w = (Some vs, w')"
  shows "fst (filter_healthy (Some cl) c ids w) = filter (\<lambda>id. live w (cool_prefix @ id) = None) ids"
  using assms by (rule filter_healthy_live)

theorem filter_healthy_exact_witness:
  "fst (filter_healthy (Some mem_redis) RequestCtx [''a'', ''b'']
     (snd (set_cooldown (Some mem_redis) BackgroundCtx ''a'' (seconds 60) mem_empty))) = [''b'']"
proof -
  let ?w = "snd (set_cooldown (Some mem_redis) BackgroundCtx ''a'' (seconds 60) mem_empty)"
  have "rc_mget mem_redis RequestCtx (map (\<lambda>id. cool_prefix @ id) [''a'', ''b'']) ?w =
      (Some (map (mem_live ?w) (map (\<lambda>id. cool_prefix @ id) [''a'', ''b''])), ?w)"
    by (simp add: mem_redis_def)
  from filter_healthy_exact [OF mem_redis_ok this] show ?thesis
    by (simp add: set_cooldown_def mem_redis_def mem_live_def mem_empty_def cool_prefix_def
        seconds_def second_def int64_def)
qed

text \<open>The store fails open. Without Redis, or when Redis does not answer, every id counts
  as healthy, no member is in cooldown and no session is pinned.\<close>

theorem store_fails_open:
  assumes "\<And>cl. s = Some cl \<Longrightarrow>
      fst (rc_mget cl c (map (\<lambda>id. cool_prefix @ id) ids) w) = None
      \<and> fst (rc_exists cl c (cool_prefix @ m) w) = None
      \<and> fst (rc_get cl c (sticky_prefix @ session) w) = None"
  shows "fst (filter_healthy s c ids w) = ids \<and> \<not> fst (is_cooldown s c m w)
    \<and> fst (get_sticky s c session w) = None"
  using assms
  by (cases s)
    (auto simp: filter_healthy_def is_cooldown_def get_sticky_def split: prod.splits option.splits)

definition dead_redis :: "unit redis_client" where
  "dead_redis = \<lparr>rc_exists = (\<lambda>c k w. (None, w)), rc_mget = (\<lambda>c ks w. (None, w)),
     rc_get = (\<lambda>c k w. (None, w)), rc_set = (\<lambda>c k v ttl w. (False, w)), rc_close = (\<lambda>w. (True, w))\<rparr>"

theorem store_fails_open_witness:
  "fst (filter_healthy (Some dead_redis) RequestCtx [''a''] ()) = [''a'']"
proof -
  have "fst (filter_healthy (Some dead_redis) RequestCtx [''a''] ()) = [''a'']
      \<and> \<not> fst (is_cooldown (Some dead_redis) RequestCtx ''a'' ())
      \<and> fst (get_sticky (Some dead_redis) RequestCtx ''s'' ()) = None"
    by (rule store_fails_open) (auto simp: dead_redis_def)
  then show ?thesis by blast
qed

text \<open>A cooldown that Redis accepts with a positive duration is seen at once: the member is
  in cooldown and the filter removes it, and no other member is affected.\<close>

theorem cooldown_takes_effect:
  assumes ok: "redis_ok cl live"
    and set: "set_cooldown (Some cl) c m ttl w = (True, w')" "0 < ttl"
    and get: "rc_mget cl c' (map (\<lambda>id. cool_prefix @ id) ids) w' = (Some vs, w'')"
  shows "fst (filter_healthy (Some cl) c' ids w') =
           filter (\<lambda>id. id \<noteq> m \<and> live w (cool_prefix @ id) = None) ids"
proof -
  have "live w' = (live w)(cool_prefix @ m \<mapsto> ''1'')"
    using set redis_set_ok [OF ok] by (simp add: set_cooldown_def)
  then show ?thesis
    unfolding filter_healthy_live [OF ok get] by (intro filter_cong) auto
qed

theorem cooldown_takes_effect_witness:
  "fst (filter_healthy (Some mem_redis) RequestCtx [''a'', ''b'']
     (snd (set_cooldown (Some mem_redis) BackgroundCtx ''a'' 60 mem_empty))) = [''b'']"
proof -
  let ?w = "snd (set_cooldown (Some mem_redis) BackgroundCtx ''a'' 60 mem_empty)"
  have "fst (filter_healthy (Some mem_redis) RequestCtx [''a'', ''b''] ?w) =
      filter (\<lambda>id. id \<noteq> ''a'' \<and> mem_live mem_empty (cool_prefix @ id) = None) [''a'', ''b'']"
    by (rule cooldown_takes_effect [OF mem_redis_ok, where ttl = 60 and c = BackgroundCtx])
      (simp_all add: set_cooldown_def mem_redis_def)
  then show ?thesis by (simp add: mem_live_def mem_empty_def)
qed

end
