(* ===== verification/Go_Digest.thy ===== *)
theory Go_Digest
  imports Go_Strings "HOL-Library.Word"
begin

text \<open>
  The digests and encodings of Go's standard library the program uses: \<open>crypto/sha256\<close>,
  \<open>encoding/hex\<close>, \<open>encoding/base64\<close> (raw URL alphabet) and \<open>hash/crc32\<close> (IEEE). They are
  executable on byte lists, and their output shapes are proved: a SHA-256 digest has 32 bytes,
  so its hexadecimal text is always 64 lower-case hexadecimal digits.
\<close>

unbundle bit_operations_syntax

type_synonym w32 = "32 word"

definition byte_of :: "char \<Rightarrow> w32" where
  "byte_of c = of_char c"

definition char_of_w32 :: "w32 \<Rightarrow> char" where
  "char_of_w32 x = char_of (uint x)"

section \<open>SHA-256\<close>

text \<open>The round constants: the first 32 bits of the fractional parts of the cube roots of the first 64
  primes, and for the initial state of the square roots of the first eight.\<close>

definition sha_k :: "w32 list" where
  "sha_k = [
    1116352408, 1899447441, 3049323471, 3921009573, 961987163, 1508970993,
    2453635748, 2870763221, 3624381080, 310598401, 607225278, 1426881987,
    1925078388, 2162078206, 2614888103, 3248222580, 3835390401, 4022224774,
    264347078, 604807628, 770255983, 1249150122, 1555081692, 1996064986,
    2554220882, 2821834349, 2952996808, 3210313671, 3336571891, 3584528711,
    113926993, 338241895, 666307205, 773529912, 1294757372, 1396182291,
    1695183700, 1986661051, 2177026350, 2456956037, 2730485921, 2820302411,
    3259730800, 3345764771, 3516065817, 3600352804, 4094571909, 275423344,
    430227734, 506948616, 659060556, 883997877, 958139571, 1322822218,
    1537002063, 1747873779, 1955562222, 2024104815, 2227730452, 2361852424,
    2428436474, 2756734187, 3204031479, 3329325298]"

definition sha_h0 :: "w32 list" where
  "sha_h0 = [
    1779033703, 3144134277, 1013904242, 2773480762, 1359893119, 2600822924,
    528734635, 1541459225]"

definition rotr :: "nat \<Rightarrow> w32 \<Rightarrow> w32" where
  "rotr n x = drop_bit n x OR push_bit (32 - n) x"

definition small_sigma0 :: "w32 \<Rightarrow> w32" where
  "small_sigma0 x = rotr 7 x XOR rotr 18 x XOR drop_bit 3 x"

definition small_sigma1 :: "w32 \<Rightarrow> w32" where
  "small_sigma1 x = rotr 17 x XOR rotr 19 x XOR drop_bit 10 x"

definition big_sigma0 :: "w32 \<Rightarrow> w32" where
  "big_sigma0 x = rotr 2 x XOR rotr 13 x XOR rotr 22 x"

definition big_sigma1 :: "w32 \<Rightarrow> w32" where
  "big_sigma1 x = rotr 6 x XOR rotr 11 x XOR rotr 25 x"

definition be_word :: "bytes \<Rightarrow> w32" where
  "be_word bs = foldl (\<lambda>acc c. push_bit 8 acc OR byte_of c) 0 bs"

text \<open>The message schedule: the words so far, newest first, extended to 64.\<close>

fun sha_extend :: "nat \<Rightarrow> w32 list \<Rightarrow> w32 list" where
  "sha_extend 0 ws = ws"
| "sha_extend (Suc n) ws =
     sha_extend n ((small_sigma1 (ws ! 1) + ws ! 6 + small_sigma0 (ws ! 14) + ws ! 15) # ws)"

fun take_words :: "nat \<Rightarrow> bytes \<Rightarrow> w32 list" where
  "take_words 0 bs = []"
| "take_words (Suc n) bs = be_word (take 4 bs) # take_words n (drop 4 bs)"

definition sha_schedule :: "bytes \<Rightarrow> w32 list" where
  "sha_schedule block = rev (sha_extend 48 (rev (take_words 16 block)))"

type_synonym sha_state = "w32 \<times> w32 \<times> w32 \<times> w32 \<times> w32 \<times> w32 \<times> w32 \<times> w32"

definition sha_round :: "sha_state \<Rightarrow> w32 \<times> w32 \<Rightarrow> sha_state" where
  "sha_round st kw =
     (case (st, kw) of
        ((a, b, c, d, e, f, g, h), (k, w)) \<Rightarrow>
          let t1 = h + big_sigma1 e + ((e AND f) XOR (NOT e AND g)) + k + w;
              t2 = big_sigma0 a + ((a AND b) XOR (a AND c) XOR (b AND c))
          in (t1 + t2, a, b, c, d + t1, e, f, g))"

definition sha_block :: "sha_state \<Rightarrow> bytes \<Rightarrow> sha_state" where
  "sha_block st block =
     (case (st, foldl sha_round st (zip sha_k (sha_schedule block))) of
        ((a, b, c, d, e, f, g, h), (a', b', c', d', e', f', g', h')) \<Rightarrow>
          (a + a', b + b', c + c', d + d', e + e', f + f', g + g', h + h'))"

text \<open>The big-endian bytes of a number, \<open>n\<close> of them.\<close>

fun be_bytes :: "nat \<Rightarrow> int \<Rightarrow> bytes" where
  "be_bytes 0 x = []"
| "be_bytes (Suc n) x = be_bytes n (x div 256) @ [char_of x]"

definition sha_pad :: "bytes \<Rightarrow> bytes" where
  "sha_pad m = m @ [CHR 0x80] @ replicate ((119 - length m mod 64) mod 64) (CHR 0x00)
               @ be_bytes 8 (8 * int (length m))"

function sha_blocks :: "sha_state \<Rightarrow> bytes \<Rightarrow> sha_state" where
  "sha_blocks st m =
     (if length m < 64 then st else sha_blocks (sha_block st (take 64 m)) (drop 64 m))"
  by pat_completeness auto
termination
  by (relation "measure (\<lambda>(st, m). length m)") auto

declare sha_blocks.simps [simp del]

definition w32_bytes :: "w32 \<Rightarrow> bytes" where
  "w32_bytes x = [char_of_w32 (drop_bit 24 x), char_of_w32 (drop_bit 16 x),
                  char_of_w32 (drop_bit 8 x), char_of_w32 x]"

definition sha256 :: "bytes \<Rightarrow> bytes" where
  "sha256 m =
     (case sha_blocks (sha_h0 ! 0, sha_h0 ! 1, sha_h0 ! 2, sha_h0 ! 3,
                       sha_h0 ! 4, sha_h0 ! 5, sha_h0 ! 6, sha_h0 ! 7) (sha_pad m) of
        (a, b, c, d, e, f, g, h) \<Rightarrow> concat (map w32_bytes [a, b, c, d, e, f, g, h]))"

lemma length_sha256 [simp]: "length (sha256 m) = 32"
  by (simp add: sha256_def w32_bytes_def split: prod.splits)

section \<open>Hexadecimal\<close>

definition hex_digit :: "nat \<Rightarrow> char" where
  "hex_digit d = (if d < 10 then char_of (48 + d) else char_of (87 + d))"

definition hex_encode :: "bytes \<Rightarrow> bytes" where
  "hex_encode bs =
     concat (map (\<lambda>c. [hex_digit (of_char c div 16), hex_digit (of_char c mod 16)]) bs)"

text \<open>A lower-case hexadecimal digit, the class of the client package's \<open>hashPattern\<close>.\<close>

definition is_hex_lower :: "char \<Rightarrow> bool" where
  "is_hex_lower c \<longleftrightarrow> (let n = (of_char c :: nat) in (48 \<le> n \<and> n \<le> 57) \<or> (97 \<le> n \<and> n \<le> 102))"

lemma hex_digit_lower: "d < 16 \<Longrightarrow> is_hex_lower (hex_digit d)"
  by (auto simp: hex_digit_def is_hex_lower_def Let_def of_char_of)

lemma length_hex_encode [simp]: "length (hex_encode bs) = 2 * length bs"
  by (induction bs) (simp_all add: hex_encode_def)

lemma hex_encode_lower: "list_all is_hex_lower (hex_encode bs)"
proof (induction bs)
  case Nil
  then show ?case by (simp add: hex_encode_def)
next
  case (Cons c bs)
  have "(of_char c :: nat) div 16 < 16"
    using nat_of_char_less_256 [of c] by (simp add: less_mult_imp_div_less)
  with Cons show ?case by (simp add: hex_encode_def hex_digit_lower)
qed

section \<open>Base64, raw URL alphabet\<close>

definition b64_alphabet :: bytes where
  "b64_alphabet = ''ABCDEFGHIJKLMNOPQRSTUVWXYZabcdefghijklmnopqrstuvwxyz0123456789-_''"

definition b64_char :: "nat \<Rightarrow> char" where
  "b64_char i = b64_alphabet ! (i mod 64)"

fun b64_encode :: "bytes \<Rightarrow> bytes" where
  "b64_encode [] = []"
| "b64_encode [a] = (let n = of_char a * 16 in [b64_char (n div 64), b64_char n])"
| "b64_encode [a, b] =
     (let n = of_char a * 1024 + of_char b * 4
      in [b64_char (n div 4096), b64_char (n div 64), b64_char n])"
| "b64_encode (a # b # c # rest) =
     (let n = of_char a * 65536 + of_char b * 256 + of_char c
      in [b64_char (n div 262144), b64_char (n div 4096), b64_char (n div 64), b64_char n]
         @ b64_encode rest)"

lemma length_b64_32: "length bs = 32 \<Longrightarrow> length (b64_encode bs) = 43"
proof -
  have "length (b64_encode bs) = (4 * length bs + 2) div 3"
    by (induction bs rule: b64_encode.induct) (simp_all add: Let_def)
  then show "length bs = 32 \<Longrightarrow> length (b64_encode bs) = 43" by simp
qed

section \<open>CRC-32 (IEEE)\<close>

definition crc_bit :: "w32 \<Rightarrow> w32" where
  "crc_bit c = (if bit c 0 then drop_bit 1 c XOR 0xEDB88320 else drop_bit 1 c)"

definition crc_byte :: "w32 \<Rightarrow> char \<Rightarrow> w32" where
  "crc_byte c b = (crc_bit ^^ 8) (c XOR byte_of b)"

definition crc32_checksum :: "bytes \<Rightarrow> w32" where
  "crc32_checksum bs = NOT (foldl crc_byte (NOT 0) bs)"

end
