(* ===== verification/Router.thy ===== *)
theory Router
  imports Pool Store Go_Digest
begin

text \<open>
  \<open>internal/router/router.go\<close>: \<open>Pick\<close> removes disabled members and members in cooldown, honours a
  pinned session, and otherwise selects by weight, from a hash of the session identifier or at
  random. Every intermediate \<open>int\<close> is a 64-bit value; \<open>rand.Intn\<close> is an argument, and its panic
  on a non-positive bound is a result.
\<close>

datatype pick_error = ErrNoMember | ErrNoHealthy

datatype pick_result = Picked member | PickErr pick_error | PickPanic

definition total_weight :: "member list \<Rightarrow> int" where
  "total_weight ms = foldl (\<lambda>t m. wrap64 (t + m_weight m)) 0 ms"

text \<open>The bound both modes draw below: the sum of the weights, or the number of members when that
  sum is zero.\<close>

definition weight_bound :: "member list \<Rightarrow> int" where
  "weight_bound ms = (let t = total_weight ms in if t = 0 then int (length ms) else t)"

text \<open>The scan over cumulated weights; a zero weight counts as one.\<close>

fun weight_scan :: "int \<Rightarrow> int \<Rightarrow> member list \<Rightarrow> member option" where
  "weight_scan pick acc [] = None"
| "weight_scan pick acc (m # ms) =
     (let w = (if m_weight m = 0 then 1 else m_weight m); acc' = wrap64 (acc + w)
      in if pick < acc' then Some m else weight_scan pick acc' ms)"

definition weight_select :: "int \<Rightarrow> member list \<Rightarrow> member" where
  "weight_select pick healthy =
     (case weight_scan pick 0 healthy of Some m \<Rightarrow> m | None \<Rightarrow> hd healthy)"

text \<open>Go's truncated remainder.\<close>

definition go_rem :: "int \<Rightarrow> int \<Rightarrow> int" where
  "go_rem a b = sgn a * (\<bar>a\<bar> mod \<bar>b\<bar>)"

definition session_hash :: "bytes \<Rightarrow> int" where
  "session_hash session = uint (crc32_checksum session)"

definition hash_pick :: "bytes \<Rightarrow> member list \<Rightarrow> member" where
  "hash_pick session healthy =
     weight_select (go_rem (session_hash session) (weight_bound healthy)) healthy"

text \<open>\<open>rand.Intn(total)\<close> panics unless \<open>total\<close> is positive.\<close>

definition random_pick ::
  "(int \<Rightarrow> 'w \<Rightarrow> int \<times> 'w) \<Rightarrow> member list \<Rightarrow> 'w \<Rightarrow> pick_result \<times> 'w" where
  "random_pick intn healthy w =
     (let total = weight_bound healthy in
      if total \<le> 0 then (PickPanic, w)
      else case intn total w of (p, w') \<Rightarrow> (Picked (weight_select p healthy), w'))"

definition weighted_choice ::
  "(int \<Rightarrow> 'w \<Rightarrow> int \<times> 'w) \<Rightarrow> bytes \<Rightarrow> member list \<Rightarrow> 'w \<Rightarrow> pick_result \<times> 'w" where
  "weighted_choice intn session healthy w =
     (if session \<noteq> [] then (Picked (hash_pick session healthy), w)
      else random_pick intn healthy w)"

text \<open>The members left after the enabled and the health filter, with the ids Redis left.\<close>

definition healthy_members :: "'w store \<Rightarrow> member list \<Rightarrow> 'w \<Rightarrow> bytes list \<times> member list \<times> 'w" where
  "healthy_members st members w =
     (let enabled = filter is_enabled members in
      case filter_healthy st RequestCtx (map m_id enabled) w of
        (ids, w') \<Rightarrow> (ids, filter (\<lambda>m. m_id m \<in> set ids) enabled, w'))"

definition router_pick ::
  "'w store \<Rightarrow> (int \<Rightarrow> 'w \<Rightarrow> int \<times> 'w) \<Rightarrow> member list \<Rightarrow> bytes \<Rightarrow> bool \<Rightarrow> 'w
     \<Rightarrow> pick_result \<times> 'w" where
  "router_pick st intn members session try_sticky w =
     (if members = [] then (PickErr ErrNoMember, w)
      else if filter is_enabled members = [] then (PickErr ErrNoHealthy, w)
      else case healthy_members st members w of
        (ids, healthy, w1) \<Rightarrow>
          if ids = [] then (PickErr ErrNoHealthy, w1)
          else if try_sticky \<and> session \<noteq> [] \<and> st \<noteq> None then
            (case get_sticky st RequestCtx session w1 of
               (Some pinned, w2) \<Rightarrow>
                 (case find (\<lambda>m. m_id m = pinned) healthy of
                    Some m \<Rightarrow> (Picked m, w2)
                  | None \<Rightarrow> weighted_choice intn session healthy w2)
             | (None, w2) \<Rightarrow> weighted_choice intn session healthy w2)
          else weighted_choice intn session healthy w1)"

section \<open>Membership\<close>

lemma weight_scan_member: "weight_scan p acc ms = Some m \<Longrightarrow> m \<in> set ms"
  by (induction ms arbitrary: acc) (auto simp: Let_def split: if_splits)

lemma weight_select_member: "ms \<noteq> [] \<Longrightarrow> weight_select p ms \<in> set ms"
  by (auto simp: weight_select_def dest: weight_scan_member split: option.splits)

lemma weighted_choice_member:
  "weighted_choice intn session ms w = (Picked m, w') \<Longrightarrow> ms \<noteq> [] \<Longrightarrow> m \<in> set ms"
  by (auto simp: weighted_choice_def hash_pick_def random_pick_def Let_def weight_select_member
      split: if_splits prod.splits)

lemma healthy_members_surviving:
  "healthy_members st members w = (ids, healthy, w') \<Longrightarrow>
     healthy = store_filter.surviving st RequestCtx m_id (filter is_enabled members) w
     \<and> ids = fst (filter_healthy st RequestCtx (map m_id (filter is_enabled members)) w)"
  by (auto simp: healthy_members_def store_filter.surviving_def Let_def split: prod.splits)

lemma healthy_members_nonempty:
  "healthy_members st members w = (ids, healthy, w') \<Longrightarrow> ids \<noteq> [] \<Longrightarrow> healthy \<noteq> []"
  using store_filter.surviving_nonempty healthy_members_surviving by metis

text \<open>Where a picked member comes from: the healthy list, and that list is not empty.\<close>

lemma router_pick_source:
  assumes "router_pick st intn members session sticky w = (Picked m, w')"
  obtains ids healthy w1 where "healthy_members st members w = (ids, healthy, w1)"
    and "ids \<noteq> []" and "m \<in> set healthy"
proof -
  obtain ids healthy w1 where h: "healthy_members st members w = (ids, healthy, w1)"
    by (metis prod_cases3)
  have ids: "ids \<noteq> []" using assms h by (auto simp: router_pick_def split: if_splits)
  then have ne: "healthy \<noteq> []" using healthy_members_nonempty h by metis
  have "m \<in> set healthy"
    using assms h ids ne
    by (auto simp: router_pick_def dest: weighted_choice_member find_in_set
        split: if_splits prod.splits option.splits)
  with h ids show ?thesis by (rule that)
qed

text \<open>\<open>Pick\<close> only ever returns one of the members it was given, enabled, and kept by the
  health filter of the moment.\<close>

theorem pick_sound:
  assumes "router_pick st intn members session sticky w = (Picked m, w')"
  shows "m \<in> set members \<and> is_enabled m
    \<and> m_id m \<in> set (fst (filter_healthy st RequestCtx (map m_id (filter is_enabled members)) w))"
proof -
  obtain ids healthy w1 where h: "healthy_members st members w = (ids, healthy, w1)"
    and m: "m \<in> set healthy"
    using router_pick_source [OF assms] by metis
  from m have "m \<in> set (store_filter.surviving st RequestCtx m_id (filter is_enabled members) w)"
    using healthy_members_surviving [OF h] by simp
  then show ?thesis
    using store_filter.surviving_subset store_filter.surviving_healthy by fastforce
qed

text \<open>Property C13: a member in cooldown is not served. With a Redis that answers the health query, \<open>Pick\<close>
  returns an enabled member of those it was given without a live cooldown key, pinned or not.\<close>

theorem pick_avoids_cooled:
  assumes "redis_ok cl live" and "router_pick (Some cl) intn members session sticky w = (Picked m, w')"
    and "rc_mget cl RequestCtx (map (\<lambda>id. cool_prefix @ id) (map m_id (filter is_enabled members))) w = (Some vs, w1)"
  shows "m \<in> set members \<and> is_enabled m \<and> live w (cool_prefix @ m_id m) = None"
proof -
  obtain ids healthy w2 where h: "healthy_members (Some cl) members w = (ids, healthy, w2)"
    and m: "m \<in> set healthy"
    using router_pick_source [OF assms(2)] by metis
  from m have m: "m \<in> set (store_filter.surviving (Some cl) RequestCtx m_id (filter is_enabled members) w)"
    using healthy_members_surviving [OF h] by simp
  then have "m_id m \<in> set (fst (filter_healthy (Some cl) RequestCtx (map m_id (filter is_enabled members)) w))"
    by (rule store_filter.surviving_healthy)
  moreover have "m \<in> set (filter is_enabled members)"
    using m by (rule subsetD [OF store_filter.surviving_subset])
  ultimately show ?thesis unfolding filter_healthy_live [OF assms(1,3)] by simp
qed

section \<open>Selection by weight\<close>

text \<open>Positive weights, as the loader publishes them, that sum to a 64-bit value, which it does not check.\<close>

definition weights_ok :: "member list \<Rightarrow> bool" where
  "weights_ok ms \<longleftrightarrow> (\<forall>m \<in> set ms. 1 \<le> m_weight m) \<and> (\<Sum>m\<leftarrow>ms. m_weight m) \<le> max_int64"

lemma weight_sum_mono:
  "weights_ok (ms @ ns) \<Longrightarrow> 0 \<le> (\<Sum>m\<leftarrow>ns. m_weight m) \<and> (\<Sum>m\<leftarrow>ms. m_weight m) \<le> max_int64"
  using sum_list_nonneg_map [of ns m_weight] by (force simp: weights_ok_def)

lemma weights_ok_append: "weights_ok (ms @ ns) \<Longrightarrow> weights_ok ms"
  using weight_sum_mono [of ms ns] by (auto simp: weights_ok_def)

lemma weights_sum_nonneg: "weights_ok ms \<Longrightarrow> 0 \<le> (\<Sum>m\<leftarrow>ms. m_weight m)"
  using sum_list_nonneg_map [of ms m_weight] by (force simp: weights_ok_def)

lemma total_weight_sum: "weights_ok ms \<Longrightarrow> total_weight ms = (\<Sum>m\<leftarrow>ms. m_weight m)"
proof (induction ms rule: rev_induct)
  case Nil
  then show ?case by (simp add: total_weight_def)
next
  case (snoc m ms)
  then have "weights_ok ms" by (metis weights_ok_append)
  with snoc.IH have "total_weight ms = (\<Sum>m\<leftarrow>ms. m_weight m)" by blast
  moreover have "0 \<le> (\<Sum>m\<leftarrow>ms @ [m]. m_weight m)" "(\<Sum>m\<leftarrow>ms @ [m]. m_weight m) \<le> max_int64"
    using snoc.prems weights_sum_nonneg by (blast, simp add: weights_ok_def)
  ultimately show ?case by (simp add: total_weight_def wrap64_nonneg_id)
qed

lemma weight_sum_positive: "weights_ok ms \<Longrightarrow> ms \<noteq> [] \<Longrightarrow> 0 < (\<Sum>m\<leftarrow>ms. m_weight m)"
proof -
  assume ok: "weights_ok ms" and ne: "ms \<noteq> []"
  have "int (length ms) \<le> (\<Sum>m\<leftarrow>ms. m_weight m)"
    by (rule sum_list_ge_length) (use ok in \<open>simp add: weights_ok_def\<close>)
  moreover have "0 < length ms" using ne by simp
  ultimately show ?thesis by linarith
qed

lemma weight_bound_sum: "weights_ok ms \<Longrightarrow> ms \<noteq> [] \<Longrightarrow> weight_bound ms = (\<Sum>m\<leftarrow>ms. m_weight m)"
  using weight_sum_positive [of ms] by (simp add: weight_bound_def total_weight_sum)

text \<open>The scan finds the member whose interval of cumulated weights holds the drawn number.\<close>

lemma weight_scan_interval:
  assumes "weights_ok (pre @ ms)" and "acc = (\<Sum>m\<leftarrow>pre. m_weight m)" and "acc \<le> p"
    and "i < length ms"
    and "acc + (\<Sum>m\<leftarrow>take i ms. m_weight m) \<le> p" and "p < acc + (\<Sum>m\<leftarrow>take (Suc i) ms. m_weight m)"
  shows "weight_scan p acc ms = Some (ms ! i)"
  using assms
proof (induction ms arbitrary: pre acc i)
  case Nil
  then show ?case by simp
next
  case (Cons m ms)
  let ?acc = "acc + m_weight m"
  have ok: "weights_ok ((pre @ [m]) @ ms)" using Cons.prems(1) by simp
  then have pm: "weights_ok (pre @ [m])" by (rule weights_ok_append)
  have w1: "1 \<le> m_weight m" using pm by (simp add: weights_ok_def)
  have "0 \<le> ?acc" "?acc \<le> max_int64"
    using weights_sum_nonneg [OF pm] pm Cons.prems(2) by (simp_all add: weights_ok_def)
  then have wr: "wrap64 ?acc = ?acc" by (rule wrap64_nonneg_id)
  show ?case
  proof (cases i)
    case 0
    then show ?thesis using Cons.prems wr w1 by (simp add: Let_def)
  next
    case (Suc j)
    have "0 \<le> (\<Sum>x\<leftarrow>take j ms. m_weight x)"
      using ok set_take_subset [of j ms]
      by (intro sum_list_nonneg_map) (force simp: weights_ok_def)
    then have "\<not> p < ?acc" using Cons.prems(5) Suc by simp
    moreover have "weight_scan p ?acc ms = Some (ms ! j)"
      using Cons.prems Suc \<open>\<not> p < ?acc\<close> by (intro Cons.IH [OF ok]) auto
    ultimately show ?thesis using wr w1 Suc by (simp add: Let_def)
  qed
qed

text \<open>Every number below the sum lies in one of the intervals.\<close>

lemma weight_interval_exists:
  assumes "0 \<le> (p::int)" and "p < (\<Sum>m\<leftarrow>ms. f m)"
  shows "\<exists>i < length ms. (\<Sum>m\<leftarrow>take i ms. f m) \<le> p \<and> p < (\<Sum>m\<leftarrow>take (Suc i) ms. f m)"
  using assms
proof (induction ms rule: rev_induct)
  case Nil
  then show ?case by simp
next
  case (snoc m ms)
  show ?case
  proof (cases "p < (\<Sum>m\<leftarrow>ms. f m)")
    case True
    then obtain i where "i < length ms" "(\<Sum>m\<leftarrow>take i ms. f m) \<le> p" "p < (\<Sum>m\<leftarrow>take (Suc i) ms. f m)"
      using snoc by blast
    then show ?thesis by (intro exI [of _ i]) simp
  next
    case False
    with snoc.prems show ?thesis by (intro exI [of _ "length ms"]) simp
  qed
qed

lemma weight_select_interval:
  assumes ok: "weights_ok ms" and i: "i < length ms"
    and p: "0 \<le> p" "(\<Sum>m\<leftarrow>take i ms. m_weight m) \<le> p" "p < (\<Sum>m\<leftarrow>take (Suc i) ms. m_weight m)"
  shows "weight_select p ms = ms ! i"
proof -
  have "weight_scan p 0 ms = Some (ms ! i)"
    by (rule weight_scan_interval [of "[]"]) (use assms in simp_all)
  then show ?thesis by (simp add: weight_select_def)
qed

text \<open>Property C15: The weights are exact. Of the numbers below the bound that \<open>Pick\<close> draws from, exactly
  \<open>weight\<close> many select each member, so a uniform draw serves members in proportion to their
  weights.\<close>

theorem weight_share_exact:
  assumes ok: "weights_ok ms" and d: "distinct (map m_id ms)" and i: "i < length ms"
  shows "card {p. 0 \<le> p \<and> p < weight_bound ms \<and> weight_select p ms = ms ! i}
           = nat (m_weight (ms ! i))"
proof -
  let ?lo = "\<Sum>m\<leftarrow>take i ms. m_weight m" and ?hi = "\<Sum>m\<leftarrow>take (Suc i) ms. m_weight m"
  have ne: "ms \<noteq> []" using i by auto
  have hi: "?hi = ?lo + m_weight (ms ! i)" using i by (simp add: take_Suc_conv_app_nth)
  have lo0: "0 \<le> ?lo" using ok set_take_subset [of i ms]
    by (intro sum_list_nonneg_map) (force simp: weights_ok_def)
  have "ms = take (Suc i) ms @ drop (Suc i) ms" by simp
  then have "(\<Sum>m\<leftarrow>ms. m_weight m) = ?hi + (\<Sum>m\<leftarrow>drop (Suc i) ms. m_weight m)"
    by (metis map_append sum_list_append)
  moreover have "0 \<le> (\<Sum>m\<leftarrow>drop (Suc i) ms. m_weight m)"
    using ok set_drop_subset [of "Suc i" ms]
    by (intro sum_list_nonneg_map) (force simp: weights_ok_def)
  ultimately have hi_le: "?hi \<le> weight_bound ms" using weight_bound_sum [OF ok ne] by simp
  have "p \<in> {?lo..<?hi}" if p: "0 \<le> p" "p < weight_bound ms" "weight_select p ms = ms ! i" for p
  proof -
    obtain j where j: "j < length ms" "(\<Sum>m\<leftarrow>take j ms. m_weight m) \<le> p"
        "p < (\<Sum>m\<leftarrow>take (Suc j) ms. m_weight m)"
      using weight_interval_exists [of p m_weight ms] p weight_bound_sum [OF ok ne] by auto
    then have "ms ! j = ms ! i" using weight_select_interval [OF ok j(1) p(1)] p(3) by simp
    then have "j = i" using d i j(1) by (metis distinct_map distinct_conv_nth)
    with j show ?thesis by simp
  qed
  moreover have "0 \<le> p \<and> p < weight_bound ms \<and> weight_select p ms = ms ! i" if "p \<in> {?lo..<?hi}" for p
    using that lo0 hi_le weight_select_interval [OF ok i, of p] by auto
  ultimately have "{p. 0 \<le> p \<and> p < weight_bound ms \<and> weight_select p ms = ms ! i} = {?lo..<?hi}"
    by blast
  then show ?thesis using hi by simp
qed

definition weigh :: "bytes \<Rightarrow> int \<Rightarrow> member" where
  "weigh i n = example_member\<lparr>m_id := i, m_weight := n\<rparr>"

theorem weight_share_exact_witness:
  "card {p. 0 \<le> p \<and> p < weight_bound [weigh ''a'' 3, weigh ''b'' 1]
        \<and> weight_select p [weigh ''a'' 3, weigh ''b'' 1] = weigh ''a'' 3} = 3"
proof -
  let ?ms = "[weigh ''a'' 3, weigh ''b'' 1]"
  have "weights_ok ?ms" "distinct (map m_id ?ms)" "0 < length ?ms"
    by (simp_all add: weights_ok_def weigh_def)
  from weight_share_exact [OF this] show ?thesis by (simp add: weigh_def)
qed

theorem pick_sound_witness:
  "weigh ''b'' 1 \<in> set [weigh ''a'' 3, weigh ''b'' 1] \<and> is_enabled (weigh ''b'' 1)
   \<and> m_id (weigh ''b'' 1) \<in> set (fst (filter_healthy (None :: unit store) RequestCtx
        (map m_id (filter is_enabled [weigh ''a'' 3, weigh ''b'' 1])) ()))"
proof (rule pick_sound)
  show "router_pick None (\<lambda>n w. (3, w)) [weigh ''a'' 3, weigh ''b'' 1] [] False ()
      = (Picked (weigh ''b'' 1), ())"
    by code_simp
qed

theorem pick_avoids_cooled_witness:
  "mem_live (snd (set_cooldown (Some mem_redis) BackgroundCtx ''a'' 60 mem_empty))
     (cool_prefix @ m_id (weigh ''b'' 1)) = None"
proof -
  let ?w = "snd (set_cooldown (Some mem_redis) BackgroundCtx ''a'' 60 mem_empty)"
  let ?ms = "[weigh ''a'' 3, weigh ''b'' 1]"
  let ?keys = "map (\<lambda>id. cool_prefix @ id) (map m_id (filter is_enabled ?ms))"
  have "rc_mget mem_redis RequestCtx ?keys ?w = (Some (map (mem_live ?w) ?keys), ?w)"
    by (simp add: mem_redis_def)
  moreover have "fst (router_pick (Some mem_redis) (\<lambda>n w. (0, w)) ?ms [] False ?w) = Picked (weigh ''b'' 1)"
    by code_simp
  then obtain w' where "router_pick (Some mem_redis) (\<lambda>n w. (0, w)) ?ms [] False ?w = (Picked (weigh ''b'' 1), w')"
    by (metis prod.collapse)
  ultimately show ?thesis using pick_avoids_cooled [OF mem_redis_ok] by blast
qed

section \<open>Availability, affinity, panics\<close>

lemma go_rem_range: "0 \<le> a \<Longrightarrow> 0 < b \<Longrightarrow> 0 \<le> go_rem a b \<and> go_rem a b < b"
  by (auto simp: go_rem_def sgn_if)

lemma session_hash_nonneg: "0 \<le> session_hash s"
  by (simp add: session_hash_def)

lemma sum_filter_le:
  "(\<And>x. x \<in> set xs \<Longrightarrow> (0::int) \<le> f x) \<Longrightarrow> (\<Sum>x\<leftarrow>filter P xs. f x) \<le> (\<Sum>x\<leftarrow>xs. f x)"
  by (induction xs) (force simp: add_increasing)+

lemma weights_ok_filter:
  assumes "weights_ok ms"
  shows "weights_ok (filter P ms)"
proof -
  have "(\<Sum>m\<leftarrow>filter P ms. m_weight m) \<le> (\<Sum>m\<leftarrow>ms. m_weight m)"
    by (rule sum_filter_le) (use assms in \<open>force simp: weights_ok_def\<close>)
  with assms show ?thesis by (simp add: weights_ok_def)
qed

lemma weighted_choice_picks:
  "weights_ok ms \<Longrightarrow> ms \<noteq> [] \<Longrightarrow> \<exists>m. fst (weighted_choice intn session ms w) = Picked m"
  using weight_sum_positive [of ms]
  by (simp add: weighted_choice_def random_pick_def weight_bound_sum Let_def split: prod.splits)

lemma weights_ok_enabled_healthy:
  "weights_ok members \<Longrightarrow> healthy_members st members w = (ids, healthy, w1) \<Longrightarrow> weights_ok healthy"
  by (auto simp: healthy_members_def Let_def intro: weights_ok_filter split: prod.splits)

lemma router_pick_total:
  assumes ok: "weights_ok members"
  shows "case fst (router_pick st intn members session sticky w) of
           PickPanic \<Rightarrow> False
         | PickErr ErrNoMember \<Rightarrow> members = []
         | PickErr ErrNoHealthy \<Rightarrow>
             fst (filter_healthy st RequestCtx (map m_id (filter is_enabled members)) w) = []
         | Picked m \<Rightarrow> True"
proof -
  obtain ids healthy w1 where h: "healthy_members st members w = (ids, healthy, w1)"
    by (metis prod_cases3)
  have ids: "ids = fst (filter_healthy st RequestCtx (map m_id (filter is_enabled members)) w)"
    using healthy_members_surviving [OF h] by simp
  have choice: "\<exists>m. fst (weighted_choice intn session healthy w2) = Picked m" if "ids \<noteq> []" for w2
    by (rule weighted_choice_picks [OF weights_ok_enabled_healthy [OF ok h]
          healthy_members_nonempty [OF h that]])
  have nil: "fst (filter_healthy st RequestCtx [] w) = []"
    by (simp add: filter_healthy_def split: option.splits)
  consider "members = []" | "filter is_enabled members = []" "members \<noteq> []" | "ids = []"
      "filter is_enabled members \<noteq> []" "members \<noteq> []"
    | (pick) "ids \<noteq> []" "filter is_enabled members \<noteq> []" "members \<noteq> []" by blast
  then show ?thesis
  proof cases
    case pick
    then have "\<exists>m. fst (router_pick st intn members session sticky w) = Picked m"
      using h choice [OF pick(1)] by (auto simp: router_pick_def split: option.splits prod.splits)
    then show ?thesis by auto
  qed (use h ids nil in \<open>auto simp: router_pick_def\<close>)
qed

lemma router_pick_picks:
  assumes ok: "weights_ok members"
    and "members \<noteq> []" "fst (filter_healthy st RequestCtx (map m_id (filter is_enabled members)) w) \<noteq> []"
  shows "\<exists>m \<in> set members. fst (router_pick st intn members session sticky w) = Picked m \<and> is_enabled m
    \<and> m_id m \<in> set (fst (filter_healthy st RequestCtx (map m_id (filter is_enabled members)) w))"
proof (cases "router_pick st intn members session sticky w")
  case (Pair r w')
  show ?thesis
  proof (cases r)
    case (Picked m)
    with Pair have p: "router_pick st intn members session sticky w = (Picked m, w')" by simp
    obtain ids healthy w1 where h: "healthy_members st members w = (ids, healthy, w1)" "m \<in> set healthy"
      using router_pick_source [OF p] by metis
    from h(2) have "m \<in> set members" "is_enabled m"
      "m_id m \<in> set (fst (filter_healthy st RequestCtx (map m_id (filter is_enabled members)) w))"
      using h(1) by (auto simp: healthy_members_def Let_def split: prod.splits)
    with p show ?thesis by auto
  qed (use router_pick_total [OF ok, where st = st and intn = intn and session = session and sticky = sticky and w = w]
      Pair assms in \<open>auto split: pick_error.splits\<close>)
qed

text \<open>Property C23: With positive weights that sum to at most the largest \<open>int\<close>, \<open>Pick\<close> never panics and its
  result is decided exactly: no members is an error of its own; the other error is returned exactly
  when no enabled member is left by the health filter, whether all cool or none is enabled;
  otherwise an enabled member the filter left is picked.\<close>

theorem pick_total:
  assumes ok: "weights_ok members"
    and ids: "ids = fst (filter_healthy st RequestCtx (map m_id (filter is_enabled members)) w)"
    and pick: "r = fst (router_pick st intn members session sticky w)"
  shows "if members = [] then r = PickErr ErrNoMember
    else if ids = [] then r = PickErr ErrNoHealthy
    else \<exists>m \<in> set members. r = Picked m \<and> is_enabled m \<and> m_id m \<in> set ids"
proof -
  have "r = PickErr ErrNoHealthy" if "members \<noteq> []" "ids = []"
    using that ids pick healthy_members_surviving [of st members w]
    by (cases "healthy_members st members w") (auto simp: router_pick_def)
  then show ?thesis
    using router_pick_picks [OF ok, of st w intn session sticky] ids pick by (auto simp: router_pick_def)
qed

theorem pick_total_witness:
  "\<exists>m \<in> set [weigh ''a'' 3]. fst (router_pick (None :: unit store) (\<lambda>n w. (0, w)) [weigh ''a'' 3] [] False ()) = Picked m
     \<and> is_enabled m \<and> m_id m \<in> set [''a'']"
proof -
  have ok: "weights_ok [weigh ''a'' 3]" by (simp add: weights_ok_def weigh_def)
  have ids: "[''a''] = fst (filter_healthy (None :: unit store) RequestCtx
      (map m_id (filter is_enabled [weigh ''a'' 3])) ())"
    by (simp add: filter_healthy_def weigh_def is_enabled_def example_member_def)
  show ?thesis
    using pick_total [OF ok ids refl, of "\<lambda>n w. (0, w)" "[]" False] by (simp only: list.distinct simp_thms if_False)
qed

text \<open>Without the bound on the sum, \<open>Pick\<close> can panic: two members with weights that
  validation accepts overflow the total, and \<open>rand.Intn\<close> is called with a negative bound.\<close>

theorem pick_overflow_panics:
  "validate \<lparr>p_members = [weigh ''a'' (2 ^ 62), weigh ''b'' (2 ^ 62)]\<rparr> = None
   \<and> router_pick None intn [weigh ''a'' (2 ^ 62), weigh ''b'' (2 ^ 62)] [] sticky w = (PickPanic, w)"
proof
  have "url_parse ''https://h'' = Some ''https''" by code_simp
  then show "validate \<lparr>p_members = [weigh ''a'' (2 ^ 62), weigh ''b'' (2 ^ 62)]\<rparr> = None"
    by (simp add: validate_None pool_ok_def member_ok_def weigh_def example_member_def valid_types_def member_types)
  show "router_pick None intn [weigh ''a'' (2 ^ 62), weigh ''b'' (2 ^ 62)] [] sticky w = (PickPanic, w)"
    by (simp add: router_pick_def healthy_members_def filter_healthy_def weighted_choice_def
        random_pick_def weight_bound_def total_weight_def weigh_def is_enabled_def
        example_member_def wrap64_def)
qed

text \<open>Property C28: Affinity without shared state. When no pin is looked up (the mode is not \<open>redis\<close>, Redis
  is absent, or it is a retry), a request with a session goes to the member whose interval of
  cumulated weights, over the enabled members the health filter leaves, holds the CRC-32 of the
  session modulo the sum of their weights: instances with the same members and the same health agree
  whatever their random source.\<close>

theorem session_pick_by_hash:
  assumes "session \<noteq> []" and "\<not> sticky \<or> st = None" and ok: "weights_ok members"
    and hs: "hs = filter (\<lambda>m. is_enabled m \<and> m_id m \<in> set (fst (filter_healthy st RequestCtx
        (map m_id (filter is_enabled members)) w))) members" and ne: "hs \<noteq> []"
  shows "\<exists>i < length hs. fst (router_pick st intn members session sticky w) = Picked (hs ! i)
    \<and> (\<Sum>m\<leftarrow>take i hs. m_weight m) \<le> session_hash session mod (\<Sum>m\<leftarrow>hs. m_weight m)
    \<and> session_hash session mod (\<Sum>m\<leftarrow>hs. m_weight m) < (\<Sum>m\<leftarrow>take (Suc i) hs. m_weight m)"
proof -
  let ?sum = "\<Sum>m\<leftarrow>hs. m_weight m" and ?p = "session_hash session mod (\<Sum>m\<leftarrow>hs. m_weight m)"
  obtain ids w1 where h: "healthy_members st members w = (ids, hs, w1)"
    and ids: "ids = fst (filter_healthy st RequestCtx (map m_id (filter is_enabled members)) w)"
    by (cases "filter_healthy st RequestCtx (map m_id (filter is_enabled members)) w")
      (simp add: healthy_members_def hs Let_def conj_commute)
  have okh: "weights_ok hs" unfolding hs by (rule weights_ok_filter [OF ok])
  have sum: "0 < ?sum" by (rule weight_sum_positive [OF okh ne])
  have "ids \<noteq> []" "filter is_enabled members \<noteq> []" "members \<noteq> []"
    using ne unfolding hs ids by (auto simp: filter_empty_conv)
  with h assms(1,2) have "fst (router_pick st intn members session sticky w) = Picked (hash_pick session hs)"
    by (auto simp: router_pick_def weighted_choice_def)
  moreover have "hash_pick session hs = weight_select ?p hs"
    using sum session_hash_nonneg [of session]
    by (simp add: hash_pick_def weight_bound_sum [OF okh ne] go_rem_def sgn_if)
  moreover have p: "0 \<le> ?p" "?p < ?sum" using sum by simp_all
  moreover obtain i where "i < length hs" "(\<Sum>m\<leftarrow>take i hs. m_weight m) \<le> ?p" "?p < (\<Sum>m\<leftarrow>take (Suc i) hs. m_weight m)"
    using weight_interval_exists [OF p] by blast
  ultimately show ?thesis using weight_select_interval [OF okh _ p(1)] by metis
qed

theorem session_pick_by_hash_witness:
  "fst (router_pick (None :: unit store) (\<lambda>n w. (0, w)) [weigh ''a'' 3, weigh ''b'' 1] ''s4'' True ())
     = Picked (weigh ''b'' 1)"
proof -
  let ?ms = "[weigh ''a'' 3, weigh ''b'' 1]"
  have ok: "weights_ok ?ms" by (simp add: weights_ok_def weigh_def)
  have hs: "?ms = filter (\<lambda>m. is_enabled m \<and> m_id m \<in> set (fst (filter_healthy (None :: unit store) RequestCtx
      (map m_id (filter is_enabled ?ms)) ()))) ?ms"
    by (simp add: filter_healthy_def weigh_def is_enabled_def example_member_def)
  have p: "session_hash ''s4'' mod 4 = 3" by code_simp
  have sums: "(\<Sum>m\<leftarrow>?ms. m_weight m) = 4" "(\<Sum>m\<leftarrow>take 1 ?ms. m_weight m) = 3" by (simp_all add: weigh_def)
  obtain i where i: "i < length ?ms"
      "fst (router_pick (None :: unit store) (\<lambda>n w. (0, w)) ?ms ''s4'' True ()) = Picked (?ms ! i)"
      "session_hash ''s4'' mod 4 < (\<Sum>m\<leftarrow>take (Suc i) ?ms. m_weight m)"
    using session_pick_by_hash [of "''s4''" True "None :: unit store", OF _ _ ok hs, of "\<lambda>n w. (0, w)"]
    unfolding sums(1) by blast
  have "i \<noteq> 0"
  proof
    assume "i = 0"
    with i(3) sums(2) p show False by simp
  qed
  then have "i = 1" using i(1) by simp
  with i(2) show ?thesis by simp
qed

lemma router_pick_pinned:
  assumes "session \<noteq> []" and h: "healthy_members (Some cl) members w = (ids, healthy, w1)"
    and "ids \<noteq> []" and g: "get_sticky (Some cl) RequestCtx session w1 = (Some pinned, w2)"
  shows "if \<exists>m \<in> set healthy. m_id m = pinned
         then \<exists>m. fst (router_pick (Some cl) intn members session True w) = Picked m \<and> m_id m = pinned
         else router_pick (Some cl) intn members session True w = (Picked (hash_pick session healthy), w2)"
proof -
  have ne: "members \<noteq> []" "filter is_enabled members \<noteq> []"
    using h \<open>ids \<noteq> []\<close> by (auto simp: healthy_members_def filter_healthy_def split: if_splits)
  show ?thesis
  proof (cases "find (\<lambda>m. m_id m = pinned) healthy")
    case None
    then have "\<not> (\<exists>m \<in> set healthy. m_id m = pinned)" by (auto simp: find_None_iff)
    with None assms ne show ?thesis by (auto simp: router_pick_def weighted_choice_def)
  next
    case (Some m)
    then have "m \<in> set healthy" "m_id m = pinned" by (auto dest: find_in_set)
    with Some assms ne show ?thesis by (auto simp: router_pick_def)
  qed
qed

text \<open>A session pinned to a member that is still healthy is served by that member; a pin to
  a member that is disabled, cooled or gone is ignored.\<close>

theorem pick_sticky:
  assumes "session \<noteq> []" and h: "healthy_members (Some cl) members w = (ids, healthy, w1)"
    and "ids \<noteq> []" and g: "get_sticky (Some cl) RequestCtx session w1 = (Some pinned, w2)"
  shows "if \<exists>m \<in> set healthy. m_id m = pinned
         then \<exists>m. fst (router_pick (Some cl) intn members session True w) = Picked m \<and> m_id m = pinned
         else router_pick (Some cl) intn members session True w = (Picked (hash_pick session healthy), w2)"
  using assms by (rule router_pick_pinned)

theorem pick_sticky_witness:
  "\<exists>m. fst (router_pick (Some mem_redis) (\<lambda>n w. (0, w)) [weigh ''a'' 3, weigh ''b'' 1] ''s1'' True
        (snd (set_sticky (Some mem_redis) RequestCtx ''s1'' ''b'' hour mem_empty))) = Picked m
     \<and> m_id m = ''b''"
proof -
  let ?w = "snd (set_sticky (Some mem_redis) RequestCtx ''s1'' ''b'' hour mem_empty)"
  let ?ms = "[weigh ''a'' 3, weigh ''b'' 1]"
  have h: "healthy_members (Some mem_redis) ?ms ?w = ([''a'', ''b''], ?ms, ?w)"
    by (simp add: healthy_members_def filter_healthy_def mem_redis_def mem_live_def set_sticky_def
        mem_empty_def weigh_def is_enabled_def example_member_def cool_prefix_def sticky_prefix_def)
  have g: "get_sticky (Some mem_redis) RequestCtx ''s1'' ?w = (Some ''b'', ?w)"
    by (simp add: get_sticky_def mem_redis_def mem_live_def set_sticky_def mem_empty_def
        sticky_prefix_def hour_def second_def)
  from pick_sticky [OF _ h _ g, of "\<lambda>n w. (0, w)"] show ?thesis
    by (simp add: weigh_def split: if_splits)
qed

end
