(* ===== verification/Go_Json.thy ===== *)
theory Go_Json
  imports Go_Net
begin

text \<open>
  The part of Go's \<open>encoding/json\<close> the program uses. \<open>json.Unmarshal\<close> first checks the whole
  input against the grammar, here a lexer and a parser over its tokens with an explicit stack,
  both structurally recursive, then fills the fields of a struct, matching names up to case
  folding and reporting a value of the wrong kind as an error. The program drops everything
  when \<open>Unmarshal\<close> fails, so a decoder returns \<open>None\<close> for a syntax error and for a type error.

  \<open>json_string\<close> is the encoder's rendering of a string.
\<close>

section \<open>Values and tokens\<close>

datatype json =
    JNull
  | JBool bool
  | JNum bytes                      \<comment> \<open>the literal\<close>
  | JStr bytes
  | JArr "json list"
  | JObj "(bytes \<times> json) list"      \<comment> \<open>members in order, duplicates kept\<close>

datatype token = LBrace | RBrace | LBrack | RBrack | Colon | Comma | TStr bytes | TLit json

section \<open>Lexer\<close>

text \<open>UTF-8 of a code point.\<close>

definition utf8 :: "nat \<Rightarrow> bytes" where
  "utf8 n =
     (if n < 128 then [char_of n]
      else if n < 2048 then [char_of (192 + n div 64), char_of (128 + n mod 64)]
      else if n < 65536 then
        [char_of (224 + n div 4096), char_of (128 + n div 64 mod 64), char_of (128 + n mod 64)]
      else [char_of (240 + n div 262144), char_of (128 + n div 4096 mod 64),
            char_of (128 + n div 64 mod 64), char_of (128 + n mod 64)])"

definition hex4 :: "char \<Rightarrow> char \<Rightarrow> char \<Rightarrow> char \<Rightarrow> nat option" where
  "hex4 a b c d =
     (case (hex_val a, hex_val b, hex_val c, hex_val d) of
        (Some x, Some y, Some z, Some t) \<Rightarrow> Some (((x * 16 + y) * 16 + z) * 16 + t)
      | _ \<Rightarrow> None)"

definition is_high :: "nat \<Rightarrow> bool" where "is_high n \<longleftrightarrow> 55296 \<le> n \<and> n < 56320"
definition is_low :: "nat \<Rightarrow> bool" where "is_low n \<longleftrightarrow> 56320 \<le> n \<and> n < 57344"

definition escape_char :: "char \<Rightarrow> char option" where
  "escape_char e =
     (if e = CHR 0x22 then Some (CHR 0x22) else if e = CHR 0x5C then Some (CHR 0x5C)
      else if e = CHR ''/'' then Some (CHR ''/'') else if e = CHR ''b'' then Some (CHR 0x08)
      else if e = CHR ''f'' then Some (CHR 0x0C) else if e = CHR ''n'' then Some (CHR 0x0A)
      else if e = CHR ''r'' then Some (CHR 0x0D) else if e = CHR ''t'' then Some (CHR 0x09)
      else None)"

definition put_front :: "bytes \<Rightarrow> (bytes \<times> bytes) option \<Rightarrow> (bytes \<times> bytes) option" where
  "put_front a r = map_option (\<lambda>(s, rest). (a @ s, rest)) r"

text \<open>The four digits after \<open>backslash-u\<close> at the front, if they are there.\<close>

fun next_u :: "bytes \<Rightarrow> nat option" where
  "next_u (bs # u # a # b # c # d # r) =
     (if bs = CHR 0x5C \<and> u = CHR ''u'' then hex4 a b c d else None)"
| "next_u _ = None"

text \<open>A string from after its opening quote: the decoded text and the rest. A lone surrogate
  becomes U+FFFD.\<close>

function lex_string :: "bytes \<Rightarrow> (bytes \<times> bytes) option" where
  "lex_string [] = None"
| "lex_string (c # cs) =
     (if c = CHR 0x22 then Some ([], cs)
      else if (of_char c :: nat) < 32 then None
      else if c = CHR 0x5C then
        (case next_u (c # cs) of
           Some n \<Rightarrow>
             if is_high n then
               (case next_u (drop 5 cs) of
                  Some m \<Rightarrow>
                    if is_low m
                    then put_front (utf8 (65536 + (n - 55296) * 1024 + (m - 56320))) (lex_string (drop 11 cs))
                    else put_front (utf8 65533) (lex_string (drop 5 cs))
                | None \<Rightarrow> put_front (utf8 65533) (lex_string (drop 5 cs)))
             else if is_low n then put_front (utf8 65533) (lex_string (drop 5 cs))
             else put_front (utf8 n) (lex_string (drop 5 cs))
         | None \<Rightarrow>
             (case cs of
                [] \<Rightarrow> None
              | e # r \<Rightarrow>
                  (case escape_char e of None \<Rightarrow> None | Some x \<Rightarrow> put_front [x] (lex_string r))))
      else put_front [c] (lex_string cs))"
  by pat_completeness auto
termination
  by (relation "measure length") auto

text \<open>A number at the front: its literal and the rest.\<close>

definition take_digits :: "bytes \<Rightarrow> bytes \<times> bytes" where
  "take_digits s = (takeWhile is_digit s, dropWhile is_digit s)"

definition lex_int_part :: "bytes \<Rightarrow> (bytes \<times> bytes) option" where
  "lex_int_part s =
     (case s of
        [] \<Rightarrow> None
      | c # cs \<Rightarrow> if c = CHR ''0'' then Some ([c], cs)
                  else if is_digit c then Some (take_digits s) else None)"

definition lex_frac :: "bytes \<Rightarrow> (bytes \<times> bytes) option" where
  "lex_frac s =
     (case s of
        [] \<Rightarrow> Some ([], [])
      | c # cs \<Rightarrow>
          if c = CHR ''.'' then
            (let (ds, r) = take_digits cs in if ds = [] then None else Some (c # ds, r))
          else Some ([], s))"

definition lex_exp :: "bytes \<Rightarrow> (bytes \<times> bytes) option" where
  "lex_exp s =
     (case s of
        [] \<Rightarrow> Some ([], [])
      | c # cs \<Rightarrow>
          if c = CHR ''e'' \<or> c = CHR ''E'' then
            (let sign = (case cs of x # _ \<Rightarrow> if x = CHR ''+'' \<or> x = CHR ''-'' then [x] else [] | [] \<Rightarrow> []);
                 (ds, r) = take_digits (drop (length sign) cs)
             in if ds = [] then None else Some (c # sign @ ds, r))
          else Some ([], s))"

definition lex_number :: "bytes \<Rightarrow> (bytes \<times> bytes) option" where
  "lex_number s =
     (let neg = (case s of c # _ \<Rightarrow> if c = CHR ''-'' then [c] else [] | [] \<Rightarrow> []) in
      case lex_int_part (drop (length neg) s) of
        None \<Rightarrow> None
      | Some (i, r1) \<Rightarrow>
          (case lex_frac r1 of
             None \<Rightarrow> None
           | Some (f, r2) \<Rightarrow>
               (case lex_exp r2 of
                  None \<Rightarrow> None
                | Some (e, r3) \<Rightarrow> Some (neg @ i @ f @ e, r3))))"

definition is_json_space :: "char \<Rightarrow> bool" where
  "is_json_space c \<longleftrightarrow> c \<in> {CHR 0x20, CHR 0x09, CHR 0x0D, CHR 0x0A}"

definition punct :: "char \<Rightarrow> token option" where
  "punct c =
     (if c = CHR ''{'' then Some LBrace else if c = CHR ''}'' then Some RBrace
      else if c = CHR ''['' then Some LBrack else if c = CHR '']'' then Some RBrack
      else if c = CHR '':'' then Some Colon else if c = CHR '','' then Some Comma else None)"

definition lex_word :: "bytes \<Rightarrow> (json \<times> bytes) option" where
  "lex_word s =
     (if has_prefix ''true'' s then Some (JBool True, drop 4 s)
      else if has_prefix ''false'' s then Some (JBool False, drop 5 s)
      else if has_prefix ''null'' s then Some (JNull, drop 4 s)
      else None)"

lemma put_front_Some:
  "put_front a r = Some (s, rest) \<longleftrightarrow> (\<exists>t. r = Some (t, rest) \<and> s = a @ t)"
  by (auto simp: put_front_def)

lemma lex_string_step:
  assumes "lex_string (c # cs) = Some (t, rest)"
  shows "rest = cs \<or> (\<exists>k u. lex_string (drop k cs) = Some (u, rest))"
proof -
  consider "c = CHR 0x22" | (esc) "c = CHR 0x5C" | (raw) "c \<noteq> CHR 0x22" "c \<noteq> CHR 0x5C" by blast
  then show ?thesis
  proof cases
    case raw
    then have "lex_string (drop 0 cs) = Some (tl t, rest)"
      using assms by (auto simp: put_front_Some split: if_splits)
    then show ?thesis by blast
  next
    case esc
    show ?thesis
    proof (cases "next_u (c # cs)")
      case None
      with esc assms obtain e r u where "cs = e # r" "lex_string r = Some (u, rest)"
        by (auto simp: put_front_Some split: list.splits option.splits)
      then have "lex_string (drop 1 cs) = Some (u, rest)" by simp
      then show ?thesis by blast
    next
      case (Some n)
      with esc assms have "\<exists>u. lex_string (drop 11 cs) = Some (u, rest) \<or> lex_string (drop 5 cs) = Some (u, rest)"
        by (auto simp: put_front_Some split: if_splits option.splits)
      then show ?thesis by blast
    qed
  qed (use assms in simp)
qed

lemma lex_string_shorter: "lex_string s = Some (t, rest) \<Longrightarrow> length rest < length s"
proof (induction "length s" arbitrary: s t rule: less_induct)
  case less
  then obtain c cs where s: "s = c # cs" by (cases s) auto
  from lex_string_step less.prems s consider "rest = cs"
    | k u where "lex_string (drop k cs) = Some (u, rest)" by blast
  then show ?case
  proof cases
    case 2
    then have "length rest < length (drop k cs)" using less.hyps [of "drop k cs"] s by simp
    then show ?thesis using s by simp
  qed (use s in simp)
qed

lemma take_digits_shorter: "take_digits s = (ds, r) \<Longrightarrow> length r \<le> length s"
  by (auto simp: take_digits_def length_dropWhile_le)

lemma lex_int_part_shorter: "lex_int_part s = Some (i, r) \<Longrightarrow> length r < length s"
  by (auto simp: lex_int_part_def take_digits_def length_dropWhile_le less_Suc_eq_le
      split: list.splits if_splits)

lemma lex_frac_shorter: "lex_frac s = Some (f, r) \<Longrightarrow> length r \<le> length s"
  by (auto simp: lex_frac_def Let_def dest: take_digits_shorter
      split: list.splits if_splits prod.splits)

lemma lex_exp_shorter: "lex_exp s = Some (f, r) \<Longrightarrow> length r \<le> length s"
  by (auto simp: lex_exp_def Let_def dest: take_digits_shorter
      split: list.splits if_splits prod.splits)

lemma lex_number_shorter: "lex_number s = Some (n, r) \<Longrightarrow> length r < length s"
  by (fastforce simp: lex_number_def Let_def dest!: lex_int_part_shorter lex_frac_shorter lex_exp_shorter
      split: option.splits prod.splits)

lemma lex_word_shorter: "lex_word s = Some (n, r) \<Longrightarrow> length r < length s"
  by (auto simp: lex_word_def dest!: has_prefix_length split: if_splits)

function lex :: "bytes \<Rightarrow> token list option" where
  "lex [] = Some []"
| "lex (c # cs) =
     (if is_json_space c then lex cs
      else case punct c of
        Some t \<Rightarrow> map_option ((#) t) (lex cs)
      | None \<Rightarrow>
          if c = CHR 0x22 then
            (case lex_string cs of
               None \<Rightarrow> None
             | Some (s, rest) \<Rightarrow> map_option ((#) (TStr s)) (lex rest))
          else
            (case lex_word (c # cs) of
               Some (v, rest) \<Rightarrow> map_option ((#) (TLit v)) (lex rest)
             | None \<Rightarrow>
                 (case lex_number (c # cs) of
                    None \<Rightarrow> None
                  | Some (n, rest) \<Rightarrow> map_option ((#) (TLit (JNum n))) (lex rest))))"
  by pat_completeness auto
termination
  by (relation "measure length")
    (auto dest: lex_string_shorter lex_word_shorter lex_number_shorter)

section \<open>Parser\<close>

text \<open>The open containers: an array with its elements so far, an object with its members so far,
  and an object waiting for the value of a key. Lists are newest first.\<close>

datatype frame = FArr "json list" | FObj "(bytes \<times> json) list" | FField "(bytes \<times> json) list" bytes

datatype mode = WantValue | WantValueOrClose | WantKey | WantKeyOrClose | WantColon bytes | After json

definition max_depth :: nat where "max_depth = 10000"

text \<open>A token that can start a value: a finished value, or a container to open.\<close>

definition start_value :: "token \<Rightarrow> (json + bool) option" where
  "start_value t =
     (case t of TStr s \<Rightarrow> Some (Inl (JStr s)) | TLit v \<Rightarrow> Some (Inl v)
      | LBrack \<Rightarrow> Some (Inr True) | LBrace \<Rightarrow> Some (Inr False) | _ \<Rightarrow> None)"

definition open_value :: "frame list \<Rightarrow> token \<Rightarrow> (mode \<times> frame list) option" where
  "open_value st t =
     (case start_value t of
        None \<Rightarrow> None
      | Some (Inl v) \<Rightarrow> Some (After v, st)
      | Some (Inr arr) \<Rightarrow>
          if max_depth \<le> length st then None
          else if arr then Some (WantValueOrClose, FArr [] # st)
          else Some (WantKeyOrClose, FObj [] # st))"

definition after_value :: "json \<Rightarrow> frame list \<Rightarrow> token \<Rightarrow> (mode \<times> frame list) option" where
  "after_value v st t =
     (case st of
        FArr vs # st' \<Rightarrow>
          (case t of Comma \<Rightarrow> Some (WantValue, FArr (v # vs) # st')
           | RBrack \<Rightarrow> Some (After (JArr (rev (v # vs))), st') | _ \<Rightarrow> None)
      | FField kvs k # st' \<Rightarrow>
          (case t of Comma \<Rightarrow> Some (WantKey, FObj ((k, v) # kvs) # st')
           | RBrace \<Rightarrow> Some (After (JObj (rev ((k, v) # kvs))), st') | _ \<Rightarrow> None)
      | _ \<Rightarrow> None)"

definition parse_step :: "mode \<Rightarrow> frame list \<Rightarrow> token \<Rightarrow> (mode \<times> frame list) option" where
  "parse_step md st t =
     (case md of
        WantValue \<Rightarrow> open_value st t
      | WantValueOrClose \<Rightarrow>
          (case (t, st) of (RBrack, FArr vs # st') \<Rightarrow> Some (After (JArr []), st') | _ \<Rightarrow> open_value st t)
      | WantKey \<Rightarrow> (case t of TStr k \<Rightarrow> Some (WantColon k, st) | _ \<Rightarrow> None)
      | WantKeyOrClose \<Rightarrow>
          (case (t, st) of
             (TStr k, _) \<Rightarrow> Some (WantColon k, st)
           | (RBrace, FObj kvs # st') \<Rightarrow> Some (After (JObj []), st')
           | _ \<Rightarrow> None)
      | WantColon k \<Rightarrow>
          (case (t, st) of (Colon, FObj kvs # st') \<Rightarrow> Some (WantValue, FField kvs k # st') | _ \<Rightarrow> None)
      | After v \<Rightarrow> after_value v st t)"

fun parse_tokens :: "mode \<Rightarrow> frame list \<Rightarrow> token list \<Rightarrow> json option" where
  "parse_tokens md st [] = (case (md, st) of (After v, []) \<Rightarrow> Some v | _ \<Rightarrow> None)"
| "parse_tokens md st (t # ts) =
     (case parse_step md st t of None \<Rightarrow> None | Some (md', st') \<Rightarrow> parse_tokens md' st' ts)"

definition parse_json :: "bytes \<Rightarrow> json option" where
  "parse_json s = (case lex s of None \<Rightarrow> None | Some ts \<Rightarrow> parse_tokens WantValue [] ts)"

section \<open>Decoding\<close>

text \<open>\<open>foldName\<close>, restricted to the runes that fold to ASCII: the two non-ASCII ones are U+017F (an
  s) and U+212A (a k).\<close>

function fold_name :: "bytes \<Rightarrow> bytes" where
  "fold_name [] = []"
| "fold_name (c # cs) =
     (if has_prefix [CHR 0xC5, CHR 0xBF] (c # cs) then CHR ''s'' # fold_name (drop 2 (c # cs))
      else if has_prefix [CHR 0xE2, CHR 0x84, CHR 0xAA] (c # cs)
        then CHR ''k'' # fold_name (drop 3 (c # cs))
      else lower_char c # fold_name cs)"
  by pat_completeness auto
termination
  by (relation "measure length") auto

text \<open>Whether a key of the document names a field; exact names fold alike.\<close>

definition names_field :: "bytes \<Rightarrow> bytes \<Rightarrow> bool" where
  "names_field key field \<longleftrightarrow> fold_name key = fold_name field"

text \<open>Into an \<open>int\<close> field: null leaves it, a number must be an integer literal in range.\<close>

definition decode_int :: "json \<Rightarrow> int \<Rightarrow> int option" where
  "decode_int j cur = (case j of JNull \<Rightarrow> Some cur | JNum n \<Rightarrow> atoi n | _ \<Rightarrow> None)"

definition decode_string :: "json \<Rightarrow> bytes \<Rightarrow> bytes option" where
  "decode_string j cur = (case j of JNull \<Rightarrow> Some cur | JStr s \<Rightarrow> Some s | _ \<Rightarrow> None)"

text \<open>Into a pointer: null makes it nil, anything else fills the value it points to, fresh if nil.\<close>

definition decode_ptr :: "(json \<Rightarrow> 'a \<Rightarrow> 'a option) \<Rightarrow> 'a \<Rightarrow> json \<Rightarrow> 'a option \<Rightarrow> 'a option option" where
  "decode_ptr dec zero j cur =
     (if j = JNull then Some None
      else map_option Some (dec j (case cur of None \<Rightarrow> zero | Some x \<Rightarrow> x)))"

text \<open>Into a struct: null leaves it, an object's members are stored one after the other by
  \<open>field\<close>, anything else is a type error.\<close>

fun decode_members :: "(bytes \<Rightarrow> json \<Rightarrow> 'a \<Rightarrow> 'a option) \<Rightarrow> (bytes \<times> json) list \<Rightarrow> 'a \<Rightarrow> 'a option" where
  "decode_members field [] x = Some x"
| "decode_members field ((k, v) # kvs) x =
     (case field k v x of None \<Rightarrow> None | Some y \<Rightarrow> decode_members field kvs y)"

definition decode_struct :: "(bytes \<Rightarrow> json \<Rightarrow> 'a \<Rightarrow> 'a option) \<Rightarrow> json \<Rightarrow> 'a \<Rightarrow> 'a option" where
  "decode_struct field j x =
     (case j of JNull \<Rightarrow> Some x | JObj kvs \<Rightarrow> decode_members field kvs x | _ \<Rightarrow> None)"

section \<open>Encoding a string\<close>

definition hex2 :: "nat \<Rightarrow> bytes" where
  "hex2 n = [''0123456789abcdef'' ! (n div 16 mod 16), ''0123456789abcdef'' ! (n mod 16)]"

text \<open>One byte of an ASCII string under \<open>Encoder.Encode\<close> with its default HTML escaping. (Valid
  UTF-8 beyond ASCII is copied, except U+2028 and U+2029, which the program never encodes.)\<close>

definition json_byte :: "char \<Rightarrow> bytes" where
  "json_byte c =
     (let n = (of_char c :: nat) in
      if c = CHR 0x22 \<or> c = CHR 0x5C then [CHR 0x5C, c]
      else if n = 8 then [CHR 0x5C, CHR ''b''] else if n = 12 then [CHR 0x5C, CHR ''f'']
      else if n = 10 then [CHR 0x5C, CHR ''n''] else if n = 13 then [CHR 0x5C, CHR ''r'']
      else if n = 9 then [CHR 0x5C, CHR ''t'']
      else if n < 32 \<or> c \<in> {CHR ''<'', CHR ''>'', CHR ''&''} then CHR 0x5C # ''u00'' @ hex2 n
      else [c])"

definition json_string :: "bytes \<Rightarrow> bytes" where
  "json_string s = CHR 0x22 # concat (map json_byte s) @ [CHR 0x22]"

end
