(* ===== verification/Usage.thy ===== *)
theory Usage
  imports Go_Json Metrics
begin

text \<open>
  \<open>internal/proxy/usage.go\<close> and \<open>recordUsage\<close> of \<open>internal/proxy/handler.go\<close>: the observer that reads
  token counts from a response body as it is copied. The observer is incremental; the
  specification is a function of the whole body, \<open>sse_usage\<close> and \<open>plain_usage\<close>, and the two are
  proved equal for every way the body may be cut into chunks.
\<close>

section \<open>Counters\<close>

record token_usage =
  tu_input :: int
  tu_output :: int
  tu_cache_read :: int
  tu_cache_creation :: int
  tu_thinking :: int

definition no_usage :: token_usage where
  "no_usage = \<lparr>tu_input = 0, tu_output = 0, tu_cache_read = 0, tu_cache_creation = 0, tu_thinking = 0\<rparr>"

definition usage_empty :: "token_usage \<Rightarrow> bool" where
  "usage_empty u \<longleftrightarrow>
     tu_input u = 0 \<and> tu_output u = 0 \<and> tu_cache_read u = 0 \<and> tu_cache_creation u = 0
     \<and> tu_thinking u = 0"

record usage_envelope =
  ue_input :: int
  ue_output :: int
  ue_cache_read :: int
  ue_cache_creation :: int
  ue_details :: "int option"      \<comment> \<open>\<open>OutputTokensDetails\<close>, with its \<open>ThinkingTokens\<close>\<close>

definition empty_envelope :: usage_envelope where
  "empty_envelope = \<lparr>ue_input = 0, ue_output = 0, ue_cache_read = 0, ue_cache_creation = 0,
     ue_details = None\<rparr>"

definition thinking :: "usage_envelope \<Rightarrow> int" where
  "thinking e = (case ue_details e of None \<Rightarrow> 0 | Some n \<Rightarrow> n)"

section \<open>Decoding\<close>

definition details_field :: "bytes \<Rightarrow> json \<Rightarrow> int \<Rightarrow> int option" where
  "details_field k j d = (if names_field k ''thinking_tokens'' then decode_int j d else Some d)"

definition envelope_field :: "bytes \<Rightarrow> json \<Rightarrow> usage_envelope \<Rightarrow> usage_envelope option" where
  "envelope_field k j e =
     (if names_field k ''input_tokens'' then
        map_option (\<lambda>n. e\<lparr>ue_input := n\<rparr>) (decode_int j (ue_input e))
      else if names_field k ''output_tokens'' then
        map_option (\<lambda>n. e\<lparr>ue_output := n\<rparr>) (decode_int j (ue_output e))
      else if names_field k ''cache_read_input_tokens'' then
        map_option (\<lambda>n. e\<lparr>ue_cache_read := n\<rparr>) (decode_int j (ue_cache_read e))
      else if names_field k ''cache_creation_input_tokens'' then
        map_option (\<lambda>n. e\<lparr>ue_cache_creation := n\<rparr>) (decode_int j (ue_cache_creation e))
      else if names_field k ''output_tokens_details'' then
        map_option (\<lambda>d. e\<lparr>ue_details := d\<rparr>)
          (decode_ptr (decode_struct details_field) 0 j (ue_details e))
      else Some e)"

definition decode_usage :: "json \<Rightarrow> usage_envelope option \<Rightarrow> usage_envelope option option" where
  "decode_usage = decode_ptr (decode_struct envelope_field) empty_envelope"

text \<open>The struct of a stream event; \<open>Message\<close> points to a struct that holds a usage pointer.\<close>

record stream_event =
  ev_type :: bytes
  ev_message :: "usage_envelope option option"
  ev_usage :: "usage_envelope option"

definition message_field ::
  "bytes \<Rightarrow> json \<Rightarrow> usage_envelope option \<Rightarrow> usage_envelope option option" where
  "message_field k j u = (if names_field k ''usage'' then decode_usage j u else Some u)"

definition event_field :: "bytes \<Rightarrow> json \<Rightarrow> stream_event \<Rightarrow> stream_event option" where
  "event_field k j e =
     (if names_field k ''type'' then
        map_option (\<lambda>s. e\<lparr>ev_type := s\<rparr>) (decode_string j (ev_type e))
      else if names_field k ''message'' then
        map_option (\<lambda>m. e\<lparr>ev_message := m\<rparr>)
          (decode_ptr (decode_struct message_field) None j (ev_message e))
      else if names_field k ''usage'' then
        map_option (\<lambda>u. e\<lparr>ev_usage := u\<rparr>) (decode_usage j (ev_usage e))
      else Some e)"

text \<open>\<open>json.Unmarshal(payload, &event)\<close>.\<close>

definition unmarshal_event :: "bytes \<Rightarrow> stream_event option" where
  "unmarshal_event payload =
     (case parse_json payload of
        None \<Rightarrow> None
      | Some j \<Rightarrow> decode_struct event_field j \<lparr>ev_type = [], ev_message = None, ev_usage = None\<rparr>)"

text \<open>\<open>json.Unmarshal\<close> into the envelope of a non-streaming response.\<close>

definition unmarshal_body :: "bytes \<Rightarrow> usage_envelope option option" where
  "unmarshal_body b =
     (case parse_json b of None \<Rightarrow> None | Some j \<Rightarrow> decode_struct message_field j None)"

section \<open>The observer\<close>

definition max_usage_buffer :: nat where "max_usage_buffer = 1048576"

record usage_observer =
  uo_sse :: bool
  uo_buf :: bytes
  uo_overflow :: bool
  uo_pending :: bytes
  uo_usage :: token_usage

definition new_usage_observer :: "bytes \<Rightarrow> usage_observer" where
  "new_usage_observer content_type =
     \<lparr>uo_sse = contains (to_lower content_type) ''text/event-stream'', uo_buf = [],
      uo_overflow = False, uo_pending = [], uo_usage = no_usage\<rparr>"

definition merge_usage :: "token_usage \<Rightarrow> usage_envelope \<Rightarrow> token_usage" where
  "merge_usage u e =
     \<lparr>tu_input = (if ue_input e > tu_input u then ue_input e else tu_input u),
      tu_output = (if ue_output e > tu_output u then ue_output e else tu_output u),
      tu_cache_read = (if ue_cache_read e > tu_cache_read u then ue_cache_read e else tu_cache_read u),
      tu_cache_creation =
        (if ue_cache_creation e > tu_cache_creation u then ue_cache_creation e else tu_cache_creation u),
      tu_thinking = (if thinking e > tu_thinking u then thinking e else tu_thinking u)\<rparr>"

definition consume_line :: "token_usage \<Rightarrow> bytes \<Rightarrow> token_usage" where
  "consume_line u line =
     (if \<not> has_prefix ''data:'' line then u
      else let payload = trim_space (drop 5 line) in
        if payload = [] \<or> payload = ''[DONE]'' then u
        else case unmarshal_event payload of
          None \<Rightarrow> u
        | Some ev \<Rightarrow>
            let u1 = (case ev_message ev of Some (Some e) \<Rightarrow> merge_usage u e | _ \<Rightarrow> u)
            in (case ev_usage ev of Some e \<Rightarrow> merge_usage u1 e | None \<Rightarrow> u1))"

text \<open>\<open>bytes.TrimSuffix(line, "\r")\<close>.\<close>

definition trim_cr :: "bytes \<Rightarrow> bytes" where
  "trim_cr line = (if line \<noteq> [] \<and> last line = CHR 0x0D then butlast line else line)"

text \<open>The loop of \<open>consumeStream\<close>: complete lines are consumed, the rest stays pending.\<close>

function drain :: "token_usage \<Rightarrow> bytes \<Rightarrow> token_usage \<times> bytes" where
  "drain u pending =
     (case cut_on (CHR 0x0A) pending of
        None \<Rightarrow> (u, pending)
      | Some (line, rest) \<Rightarrow> drain (consume_line u (trim_cr line)) rest)"
  by pat_completeness auto
termination
  by (relation "measure (\<lambda>(u, s). length s)") (auto simp: cut_on_Some)

declare drain.simps [simp del]

definition consume_stream :: "bytes \<Rightarrow> usage_observer \<Rightarrow> usage_observer" where
  "consume_stream p ob =
     (case drain (uo_usage ob) (uo_pending ob @ p) of
        (u, rest) \<Rightarrow> ob\<lparr>uo_usage := u, uo_pending := rest\<rparr>)"

definition observer_write :: "bytes \<Rightarrow> usage_observer \<Rightarrow> usage_observer" where
  "observer_write p ob =
     (if uo_sse ob then consume_stream p ob
      else let remaining = max_usage_buffer - length (uo_buf ob) in
        if 0 < remaining then
          (if remaining < length p
           then ob\<lparr>uo_buf := uo_buf ob @ take remaining p, uo_overflow := True\<rparr>
           else ob\<lparr>uo_buf := uo_buf ob @ p\<rparr>)
        else ob\<lparr>uo_overflow := True\<rparr>)"

definition usage_of_envelope :: "usage_envelope \<Rightarrow> token_usage" where
  "usage_of_envelope e =
     \<lparr>tu_input = ue_input e, tu_output = ue_output e, tu_cache_read = ue_cache_read e,
      tu_cache_creation = ue_cache_creation e, tu_thinking = thinking e\<rparr>"

definition observer_result :: "usage_observer \<Rightarrow> token_usage" where
  "observer_result ob =
     (if uo_sse ob then uo_usage ob
      else if uo_overflow ob then no_usage
      else case unmarshal_body (uo_buf ob) of
        Some (Some e) \<Rightarrow> usage_of_envelope e
      | _ \<Rightarrow> no_usage)"

section \<open>Recording\<close>

definition add_tokens :: "bytes \<Rightarrow> bytes \<Rightarrow> bytes \<Rightarrow> int \<Rightarrow> metric_log" where
  "add_tokens client_name member_id kind n = (if n > 0 then [Tokens client_name member_id kind n] else [])"

definition record_usage :: "bytes \<Rightarrow> bytes \<Rightarrow> token_usage \<Rightarrow> metric_log" where
  "record_usage client_name member_id u =
     (if usage_empty u then []
      else add_tokens client_name member_id ''input'' (tu_input u)
         @ add_tokens client_name member_id ''output'' (tu_output u)
         @ add_tokens client_name member_id ''cache_read'' (tu_cache_read u)
         @ add_tokens client_name member_id ''cache_creation'' (tu_cache_creation u)
         @ (if tu_thinking u > 0 then [ThinkingTokens client_name member_id (tu_thinking u)] else []))"

section \<open>The observer as a function of the whole body\<close>

lemma cut_on_append_Some: "cut_on c s = Some (a, b) \<Longrightarrow> cut_on c (s @ t) = Some (a, b @ t)"
  by (auto simp: cut_on_Some)

lemma drain_append:
  "drain u (a @ b) = (case drain u a of (u', rest) \<Rightarrow> drain u' (rest @ b))"
proof (induction u a rule: drain.induct)
  case (1 u a)
  show ?case
  proof (cases "cut_on (CHR 0x0A) a")
    case None
    then show ?thesis by (simp add: drain.simps [of u a])
  next
    case (Some lr)
    obtain line rest where lr: "lr = (line, rest)" by force
    have "drain u (a @ b) = drain (consume_line u (trim_cr line)) (rest @ b)"
      using cut_on_append_Some [OF Some [unfolded lr], of b] by (simp add: drain.simps [of u "a @ b"])
    also have "\<dots> = (case drain (consume_line u (trim_cr line)) rest of (u', r) \<Rightarrow> drain u' (r @ b))"
      using "1" [OF Some lr [symmetric]] .
    finally show ?thesis using Some lr by (simp add: drain.simps [of u a])
  qed
qed

text \<open>What a stream reports: every complete line, in order.\<close>

definition sse_usage :: "bytes \<Rightarrow> token_usage" where
  "sse_usage body = foldl consume_line no_usage (map trim_cr (butlast (split_on (CHR 0x0A) body)))"

definition plain_usage :: "bytes \<Rightarrow> token_usage" where
  "plain_usage body =
     (if max_usage_buffer < length body then no_usage
      else case unmarshal_body body of Some (Some e) \<Rightarrow> usage_of_envelope e | _ \<Rightarrow> no_usage)"

lemma split_on_single: "sep \<notin> set s \<Longrightarrow> split_on sep s = [s]"
  by (induction s) auto

lemma drain_lines:
  "fst (drain u s) = foldl consume_line u (map trim_cr (butlast (split_on (CHR 0x0A) s)))"
proof (induction u s rule: drain.induct)
  case (1 u s)
  show ?case
  proof (cases "cut_on (CHR 0x0A) s")
    case None
    then have "split_on (CHR 0x0A) s = [s]" by (simp add: cut_on_None split_on_single)
    with None show ?thesis by (simp add: drain.simps [of u s])
  next
    case (Some lr)
    obtain line rest where lr: "lr = (line, rest)" by force
    then have "s = line @ CHR 0x0A # rest" "CHR 0x0A \<notin> set line"
      using Some by (auto simp: cut_on_Some)
    then have "split_on (CHR 0x0A) s = line # split_on (CHR 0x0A) rest"
      by (simp add: split_on_append split_on_single)
    then show ?thesis using "1" [OF Some lr [symmetric]] Some lr by (simp add: drain.simps [of u s])
  qed
qed

lemma observer_write_sse [simp]: "uo_sse (observer_write p ob) = uo_sse ob"
  by (simp add: observer_write_def consume_stream_def Let_def split: prod.splits)

lemma fold_write_sse:
  "uo_sse ob \<Longrightarrow>
     (uo_usage (fold observer_write chunks ob), uo_pending (fold observer_write chunks ob))
       = (if chunks = [] then (uo_usage ob, uo_pending ob)
          else drain (uo_usage ob) (uo_pending ob @ concat chunks))"
proof (induction chunks arbitrary: ob)
  case Nil
  then show ?case by simp
next
  case (Cons p chunks)
  obtain u rest where d: "drain (uo_usage ob) (uo_pending ob @ p) = (u, rest)" by force
  let ?ob = "observer_write p ob"
  have ob: "uo_usage ?ob = u" "uo_pending ?ob = rest" "uo_sse ?ob"
    using Cons.prems d by (simp_all add: observer_write_def consume_stream_def)
  have fixpoint: "drain u rest = (u, rest)"
    using drain_append [of "uo_usage ob" "uo_pending ob @ p" "[]"] d by simp
  have "drain (uo_usage ob) (uo_pending ob @ p @ concat chunks) = drain u (rest @ concat chunks)"
    using drain_append [of "uo_usage ob" "uo_pending ob @ p" "concat chunks"] d by simp
  then show ?case using Cons.IH [OF ob(3)] ob fixpoint by simp
qed

lemma fold_write_plain:
  assumes "\<not> uo_sse ob" and "length (uo_buf ob) \<le> max_usage_buffer" and "\<forall>p \<in> set chunks. p \<noteq> []"
  shows "uo_buf (fold observer_write chunks ob) = take max_usage_buffer (uo_buf ob @ concat chunks)
    \<and> (uo_overflow (fold observer_write chunks ob) \<longleftrightarrow>
         uo_overflow ob \<or> max_usage_buffer < length (uo_buf ob @ concat chunks))"
  using assms
proof (induction chunks arbitrary: ob)
  case Nil
  then show ?case by simp
next
  case (Cons p chunks)
  have p: "p \<noteq> []" using Cons.prems by simp
  let ?ob = "observer_write p ob"
  have b: "uo_buf ?ob = take max_usage_buffer (uo_buf ob @ p)"
    "uo_overflow ?ob \<longleftrightarrow> uo_overflow ob \<or> max_usage_buffer < length (uo_buf ob @ p)"
    using Cons.prems p by (auto simp: observer_write_def Let_def)
  have "uo_buf (fold observer_write chunks ?ob) = take max_usage_buffer (uo_buf ?ob @ concat chunks)
    \<and> (uo_overflow (fold observer_write chunks ?ob) \<longleftrightarrow>
         uo_overflow ?ob \<or> max_usage_buffer < length (uo_buf ?ob @ concat chunks))"
    using Cons.prems b by (intro Cons.IH) auto
  then show ?case using b Cons.prems(2)
    by (cases "max_usage_buffer < length (uo_buf ob @ p)") (auto simp: min_absorb1)
qed

text \<open>The usage of a whole body with its content type.\<close>

definition body_usage :: "bytes \<Rightarrow> bytes \<Rightarrow> token_usage" where
  "body_usage ct body =
     (if contains (to_lower ct) ''text/event-stream'' then sse_usage body else plain_usage body)"

lemma observer_total:
  assumes "\<forall>p \<in> set chunks. p \<noteq> []"
  shows "observer_result (fold observer_write chunks (new_usage_observer ct)) = body_usage ct (concat chunks)"
proof (cases "contains (to_lower ct) ''text/event-stream''")
  case True
  let ?ob = "new_usage_observer ct"
  have sse: "uo_sse ?ob" using True by (simp add: new_usage_observer_def)
  have "uo_sse (fold observer_write cs ob) = uo_sse ob" for cs ob
    by (induction cs arbitrary: ob) simp_all
  moreover have "uo_usage (fold observer_write chunks ?ob) = sse_usage (concat chunks)"
    using fold_write_sse [OF sse, of chunks] drain_lines [of no_usage "concat chunks"]
    by (cases "drain no_usage (concat chunks)")
      (auto simp: new_usage_observer_def sse_usage_def split: if_splits)
  ultimately show ?thesis using True sse by (simp add: observer_result_def body_usage_def)
next
  case False
  let ?ob = "new_usage_observer ct"
  have plain: "\<not> uo_sse ?ob" "uo_buf ?ob = []" "\<not> uo_overflow ?ob"
    using False by (simp_all add: new_usage_observer_def)
  have "uo_sse (fold observer_write cs ob) = uo_sse ob" for cs ob
    by (induction cs arbitrary: ob) simp_all
  then show ?thesis
    using False plain fold_write_plain [OF plain(1) _ assms]
    by (auto simp: observer_result_def plain_usage_def body_usage_def)
qed

text \<open>Property C19: What the observer reports depends only on the bytes of the body, not on how the body
  was cut into reads: for a stream, the usage of its complete lines; for a single object, the
  usage of the whole body, and nothing for a body over one mebibyte.\<close>

theorem observer_chunking_irrelevant:
  assumes "\<forall>p \<in> set chunks. p \<noteq> []"
  shows "observer_result (fold observer_write chunks (new_usage_observer ct)) =
     (if contains (to_lower ct) ''text/event-stream'' then sse_usage (concat chunks)
      else plain_usage (concat chunks))"
  using observer_total [OF assms] by (simp add: body_usage_def)

text \<open>An event stream cut in the middle of a line and of a word.\<close>

definition example_chunks :: "bytes list" where
  "example_chunks =
     [''data: {\"usage\":{\"output_tok'', ''ens\":40}}'' @ [CHR 0x0D, CHR 0x0A] @ ''data: {\"usage\"'']"

theorem observer_chunking_irrelevant_witness:
  "observer_result (fold observer_write example_chunks (new_usage_observer ''text/event-stream''))
     = \<lparr>tu_input = 0, tu_output = 40, tu_cache_read = 0, tu_cache_creation = 0, tu_thinking = 0\<rparr>"
proof -
  have "\<forall>p \<in> set example_chunks. p \<noteq> []" by (simp add: example_chunks_def)
  note eq = observer_chunking_irrelevant [OF this, of "''text/event-stream''"]
  have sse: "contains (to_lower ''text/event-stream'') ''text/event-stream''" by code_simp
  have "sse_usage (concat example_chunks) =
      \<lparr>tu_input = 0, tu_output = 40, tu_cache_read = 0, tu_cache_creation = 0, tu_thinking = 0\<rparr>"
    by code_simp
  then show ?thesis by (simp only: eq sse if_True)
qed

text \<open>Property C35: The buffer held for a non-streaming body never exceeds one mebibyte, whatever
  arrives.\<close>

theorem observer_buffer_bounded:
  "length (uo_buf (fold observer_write chunks (new_usage_observer ct))) \<le> max_usage_buffer"
proof -
  have "length (uo_buf (observer_write p ob)) \<le> max_usage_buffer"
    if "length (uo_buf ob) \<le> max_usage_buffer" for p ob
    using that by (auto simp: observer_write_def consume_stream_def Let_def split: prod.splits)
  then have "length (uo_buf (fold observer_write cs ob)) \<le> max_usage_buffer"
    if "length (uo_buf ob) \<le> max_usage_buffer" for cs ob
    using that by (induction cs arbitrary: ob) auto
  then show ?thesis by (simp add: new_usage_observer_def)
qed

section \<open>Counters only grow, and are recorded once\<close>

definition usage_le :: "token_usage \<Rightarrow> token_usage \<Rightarrow> bool" where
  "usage_le u v \<longleftrightarrow>
     tu_input u \<le> tu_input v \<and> tu_output u \<le> tu_output v \<and> tu_cache_read u \<le> tu_cache_read v
     \<and> tu_cache_creation u \<le> tu_cache_creation v \<and> tu_thinking u \<le> tu_thinking v"

lemma usage_le_refl [simp]: "usage_le u u"
  by (simp add: usage_le_def)

lemma usage_le_trans: "usage_le u v \<Longrightarrow> usage_le v w \<Longrightarrow> usage_le u w"
  by (auto simp: usage_le_def)

lemma merge_usage_ge: "usage_le u (merge_usage u e)"
  by (simp add: usage_le_def merge_usage_def)

lemma consume_line_ge: "usage_le u (consume_line u line)"
  by (auto simp: consume_line_def Let_def intro: merge_usage_ge usage_le_trans [OF merge_usage_ge merge_usage_ge]
      split: option.splits)

lemma consume_lines_ge: "usage_le u (foldl consume_line u lines)"
  by (induction lines arbitrary: u) (auto intro: usage_le_trans consume_line_ge)

lemma split_on_prefix: "\<exists>ls. butlast (split_on sep (s @ t)) = butlast (split_on sep s) @ ls"
proof (cases "sep \<in> set s")
  case False
  then show ?thesis by (simp add: split_on_single)
next
  case True
  then obtain a b where s: "s = a @ sep # b" and b: "sep \<notin> set b"
    by (metis split_list_last)
  then have "split_on sep s = split_on sep a @ [b]"
    by (simp add: split_on_append split_on_single)
  moreover have "split_on sep (s @ t) = split_on sep a @ split_on sep (b @ t)"
    using s by (simp add: split_on_append)
  ultimately show ?thesis by (auto simp: butlast_append)
qed

text \<open>The counts of a stream are cumulative. However a stream continues, no counter read
  so far decreases, and none is ever negative.\<close>

theorem sse_usage_monotone:
  "usage_le (sse_usage body) (sse_usage (body @ later)) \<and> usage_le no_usage (sse_usage body)"
proof -
  obtain ls where "butlast (split_on (CHR 0x0A) (body @ later)) = butlast (split_on (CHR 0x0A) body) @ ls"
    using split_on_prefix by blast
  then show ?thesis by (simp add: sse_usage_def consume_lines_ge)
qed

section \<open>What is counted\<close>

text \<open>What a usage adds to the total of a type; thinking tokens have none of their own.\<close>

definition usage_of_kind :: "bytes \<Rightarrow> token_usage \<Rightarrow> int" where
  "usage_of_kind kind u =
     (if kind = ''input'' then max 0 (tu_input u)
      else if kind = ''output'' then max 0 (tu_output u)
      else if kind = ''cache_read'' then max 0 (tu_cache_read u)
      else if kind = ''cache_creation'' then max 0 (tu_cache_creation u)
      else 0)"

text \<open>Recording a usage adds each positive count once to the total of its own type, and thinking tokens
  only to their own counter; no other client's or member's total changes.\<close>

lemma record_usage_totals:
  "tokens_total c m kind (record_usage c' m' u) = (if c = c' \<and> m = m' then usage_of_kind kind u else 0)"
  "thinking_total c m (record_usage c' m' u) = (if c = c' \<and> m = m' then max 0 (tu_thinking u) else 0)"
  by (simp_all add: record_usage_def add_tokens_def tokens_total_def thinking_total_def usage_empty_def
      usage_of_kind_def max_def)

lemma record_usage_events [simp]:
  "failed_over (record_usage c m u) = []" "observed (record_usage c m u) = []"
  "list_all well_formed_event (record_usage c m u)"
  by (simp_all add: record_usage_def add_tokens_def well_formed_event_iff)

end
