(* ===== verification/Client.thy ===== *)
theory Client
  imports Go_Digest
begin

text \<open>
  \<open>internal/client/types.go\<close> and \<open>internal/client/token.go\<close>: the registry of callers, its validation and
  digest index, token lookup, and token issue. The index the code builds while it validates is
  related to a plain search over the client list, and an issued token is shown to be found
  again through the entry that was printed for it.
\<close>

section \<open>Data\<close>

definition UnknownClient :: bytes where "UnknownClient = ''unknown''"

definition is_alnum :: "char \<Rightarrow> bool" where
  "is_alnum c \<longleftrightarrow> (let n = (of_char c :: nat) in
     (48 \<le> n \<and> n \<le> 57) \<or> (65 \<le> n \<and> n \<le> 90) \<or> (97 \<le> n \<and> n \<le> 122))"

text \<open>\<open>hashPattern\<close>, \<open>^[0-9a-f]{64}$\<close>.\<close>

definition hash_pattern :: "bytes \<Rightarrow> bool" where
  "hash_pattern s \<longleftrightarrow> length s = 64 \<and> list_all is_hex_lower s"

text \<open>\<open>namePattern\<close>, \<open>^[a-zA-Z0-9][a-zA-Z0-9._-]{0,63}$\<close>.\<close>

fun name_pattern :: "bytes \<Rightarrow> bool" where
  "name_pattern [] = False"
| "name_pattern (c # cs) =
     (is_alnum c \<and> length cs \<le> 63 \<and> list_all (\<lambda>x. is_alnum x \<or> x \<in> set ''._-'') cs)"

record client =
  c_name :: bytes
  c_token_sha256 :: bytes
  c_enabled :: "bool option"

definition client_enabled :: "client \<Rightarrow> bool" where
  "client_enabled c = (case c_enabled c of None \<Rightarrow> True | Some b \<Rightarrow> b)"

record registry =
  r_clients :: "client list"
  r_by_hash :: "(bytes \<rightharpoonup> client) option"   \<comment> \<open>\<open>None\<close> is the nil map\<close>

section \<open>Validation\<close>

datatype client_error =
    NoClients
  | MissingName nat
  | BadName nat bytes
  | DuplicateName bytes
  | DigestRequired nat bytes
  | BadDigest nat bytes
  | SharedToken bytes bytes

fun check_clients ::
  "nat \<Rightarrow> bytes set \<Rightarrow> (bytes \<rightharpoonup> client) \<Rightarrow> client list \<Rightarrow> (client_error, bytes \<rightharpoonup> client) outcome" where
  "check_clients i names by_hash [] = Inr by_hash"
| "check_clients i names by_hash (c # cs) =
     (if c_name c = [] then Inl (MissingName i)
      else if \<not> name_pattern (c_name c) then Inl (BadName i (c_name c))
      else if c_name c \<in> names then Inl (DuplicateName (c_name c))
      else let digest = to_lower (c_token_sha256 c) in
        if digest = [] then Inl (DigestRequired i (c_name c))
        else if \<not> hash_pattern digest then Inl (BadDigest i (c_name c))
        else case by_hash digest of
          Some prev \<Rightarrow> Inl (SharedToken (c_name prev) (c_name c))
        | None \<Rightarrow>
            check_clients (Suc i) (insert (c_name c) names)
              (by_hash(digest \<mapsto> c\<lparr>c_token_sha256 := digest\<rparr>)) cs)"

definition validate_registry :: "registry \<Rightarrow> (client_error, registry) outcome" where
  "validate_registry r =
     (if r_clients r = [] then Inl NoClients
      else case check_clients 0 {} Map.empty (r_clients r) of
        Inl e \<Rightarrow> Inl e
      | Inr m \<Rightarrow> Inr (r\<lparr>r_by_hash := Some m\<rparr>))"

definition digest_of :: "client \<Rightarrow> bytes" where
  "digest_of c = to_lower (c_token_sha256 c)"

definition client_ok :: "client \<Rightarrow> bool" where
  "client_ok c \<longleftrightarrow> name_pattern (c_name c) \<and> hash_pattern (digest_of c)"

definition registry_ok :: "registry \<Rightarrow> bool" where
  "registry_ok r \<longleftrightarrow>
     r_clients r \<noteq> [] \<and> list_all client_ok (r_clients r)
     \<and> distinct (map c_name (r_clients r)) \<and> distinct (map digest_of (r_clients r))"

text \<open>The index, as a search over the list.\<close>

definition find_by_digest :: "client list \<Rightarrow> bytes \<Rightarrow> client option" where
  "find_by_digest cs d =
     map_option (\<lambda>c. c\<lparr>c_token_sha256 := d\<rparr>) (find (\<lambda>c. digest_of c = d) cs)"

lemma name_pattern_nonempty: "name_pattern s \<Longrightarrow> s \<noteq> []"
  by auto

lemma hash_pattern_nonempty: "hash_pattern s \<Longrightarrow> s \<noteq> []"
  by (auto simp: hash_pattern_def)

lemma check_clients_step:
  "check_clients i names m (c # cs) =
     (if client_ok c \<and> c_name c \<notin> names \<and> m (digest_of c) = None
      then check_clients (Suc i) (insert (c_name c) names)
             (m(digest_of c \<mapsto> c\<lparr>c_token_sha256 := digest_of c\<rparr>)) cs
      else Inl (projl (check_clients i names m (c # cs))))"
  by (auto simp: client_ok_def digest_of_def Let_def dest: name_pattern_nonempty
      hash_pattern_nonempty split: option.splits)

declare check_clients.simps(2) [simp del]

text \<open>The scan succeeds exactly on distinct, well-formed entries that clash with nothing seen, and
  then extends the index by the search.\<close>

lemma check_clients_Inr:
  "check_clients i names m cs = Inr m' \<longleftrightarrow>
     list_all client_ok cs \<and> distinct (map c_name cs) \<and> distinct (map digest_of cs)
     \<and> c_name ` set cs \<inter> names = {} \<and> digest_of ` set cs \<inter> dom m = {}
     \<and> m' = (\<lambda>d. case find_by_digest cs d of Some c \<Rightarrow> Some c | None \<Rightarrow> m d)"
proof (induction cs arbitrary: i names m)
  case Nil
  then show ?case by (auto simp: find_by_digest_def)
next
  case (Cons c cs)
  let ?m = "m(digest_of c \<mapsto> c\<lparr>c_token_sha256 := digest_of c\<rparr>)"
  show ?case
  proof (cases "client_ok c \<and> c_name c \<notin> names \<and> m (digest_of c) = None")
    case False
    then have "check_clients i names m (c # cs) \<noteq> Inr m'"
      by (subst check_clients_step) auto
    with False show ?thesis by auto
  next
    case True
    then have step: "check_clients i names m (c # cs) =
        check_clients (Suc i) (insert (c_name c) names) ?m cs"
      by (subst check_clients_step) simp
    have idx: "(\<lambda>d. case find_by_digest cs d of Some c \<Rightarrow> Some c | None \<Rightarrow> ?m d) =
        (\<lambda>d. case find_by_digest (c # cs) d of Some c \<Rightarrow> Some c | None \<Rightarrow> m d)"
      if "digest_of c \<notin> digest_of ` set cs"
    proof
      fix d
      show "(case find_by_digest cs d of Some c \<Rightarrow> Some c | None \<Rightarrow> ?m d) =
          (case find_by_digest (c # cs) d of Some c \<Rightarrow> Some c | None \<Rightarrow> m d)"
        using that by (cases "d = digest_of c")
          (auto simp: find_by_digest_def find_None_iff image_iff split: option.splits dest!: find_in_set)
    qed
    show ?thesis
    proof (cases "digest_of c \<in> digest_of ` set cs")
      case True
      then show ?thesis unfolding step Cons.IH by auto
    next
      case False
      with True idx show ?thesis unfolding step Cons.IH by auto
    qed
  qed
qed

lemma validate_registry_Some: "(\<exists>r'. validate_registry r = Inr r') \<longleftrightarrow> registry_ok r"
proof -
  have "(\<exists>m. check_clients 0 {} Map.empty (r_clients r) = Inr m) \<longleftrightarrow>
      list_all client_ok (r_clients r) \<and> distinct (map c_name (r_clients r))
      \<and> distinct (map digest_of (r_clients r))"
    by (simp add: check_clients_Inr)
  then show ?thesis
    by (auto simp: validate_registry_def registry_ok_def split: sum.splits)
qed

text \<open>Property C31: Validation accepts exactly the non-empty registries whose names match the label
  pattern, whose digests are 64 hexadecimal digits in either case, and in which no name and no
  digest occurs twice.\<close>

theorem validate_registry_iff: "(\<exists>r'. validate_registry r = Inr r') \<longleftrightarrow> registry_ok r"
  by (rule validate_registry_Some)

lemma check_clients_fresh:
  "list_all client_ok cs \<Longrightarrow> distinct (map c_name cs) \<Longrightarrow> distinct (map digest_of cs) \<Longrightarrow>
     check_clients 0 {} Map.empty cs = Inr (find_by_digest cs)"
  unfolding check_clients_Inr by (auto split: option.splits)

lemma validate_registry_Inr:
  "validate_registry r = Inr r' \<longleftrightarrow>
     registry_ok r \<and> r' = r\<lparr>r_by_hash := Some (find_by_digest (r_clients r))\<rparr>"
proof (cases "registry_ok r")
  case True
  then show ?thesis
    by (auto simp: validate_registry_def registry_ok_def check_clients_fresh)
next
  case False
  then show ?thesis using validate_registry_Some by blast
qed

section \<open>Lookup\<close>

definition hash_token :: "bytes \<Rightarrow> bytes" where
  "hash_token token = hex_encode (sha256 token)"

text \<open>\<open>Registry.Lookup\<close> on a possibly nil receiver.\<close>

definition registry_lookup :: "registry option \<Rightarrow> bytes \<Rightarrow> client option" where
  "registry_lookup r token =
     (case r of
        None \<Rightarrow> None
      | Some reg \<Rightarrow>
          if token = [] then None
          else case r_by_hash reg of None \<Rightarrow> None | Some m \<Rightarrow> m (hash_token token))"

lemma hash_token_pattern: "hash_pattern (hash_token t)"
  by (simp add: hash_pattern_def hash_token_def hex_encode_lower)

lemma lower_hex: "list_all is_hex_lower s \<Longrightarrow> to_lower s = s"
proof (induction s)
  case Nil
  then show ?case by simp
next
  case (Cons c s)
  then have "(of_char c :: nat) < 128" and nonup: "\<not> (65 \<le> (of_char c :: nat) \<and> (of_char c :: nat) \<le> 90)"
    by (auto simp: is_hex_lower_def Let_def)
  then have "c \<noteq> CHR 0xC4" and "c \<noteq> CHR 0xE2" by auto
  moreover have "lower_char c = c" using nonup by (auto simp: lower_char_def)
  ultimately show ?case using Cons by simp
qed

lemma to_lower_hash [simp]: "to_lower (hash_token t) = hash_token t"
  using hash_token_pattern [of t] by (simp add: hash_pattern_def lower_hex)

lemma find_distinct:
  "distinct (map f cs) \<Longrightarrow> find (\<lambda>c. f c = d) cs = Some c \<longleftrightarrow> c \<in> set cs \<and> f c = d"
  by (induction cs) auto

lemma registry_lookup_Some:
  assumes "validate_registry r = Inr r'"
  shows "registry_lookup (Some r') token = Some c \<longleftrightarrow>
     token \<noteq> [] \<and> (\<exists>c0 \<in> set (r_clients r). digest_of c0 = hash_token token
                     \<and> c = c0\<lparr>c_token_sha256 := hash_token token\<rparr>)"
proof -
  have ok: "registry_ok r" and r': "r_by_hash r' = Some (find_by_digest (r_clients r))"
    using assms by (auto simp: validate_registry_Inr)
  have "find_by_digest cs d = Some c \<longleftrightarrow>
      (\<exists>c0 \<in> set cs. digest_of c0 = d \<and> c = c0\<lparr>c_token_sha256 := d\<rparr>)"
    if "distinct (map digest_of cs)" for cs d
    using that by (auto simp: find_by_digest_def find_distinct)
  with ok r' show ?thesis
    by (auto simp: registry_lookup_def registry_ok_def)
qed

text \<open>Property C20: Over a validated registry, lookup of a token finds a client exactly when one of the
  entries carries the SHA-256 digest of the token, upper or lower case; an empty token and a
  registry that was never validated find nothing.\<close>

theorem registry_lookup_iff:
  assumes "validate_registry r = Inr r'"
  shows "registry_lookup (Some r') token = Some c \<longleftrightarrow>
     token \<noteq> [] \<and> (\<exists>c0 \<in> set (r_clients r). digest_of c0 = hash_token token
                     \<and> c = c0\<lparr>c_token_sha256 := hash_token token\<rparr>)"
  using assms by (rule registry_lookup_Some)

section \<open>Issuing a token\<close>

definition TokenPrefix :: bytes where "TokenPrefix = ''sk-ant-oat01-''"

text \<open>\<open>IssueToken\<close>: \<open>rnd\<close> is what \<open>rand.Read\<close> put into the 32-byte buffer, \<open>None\<close> its error.\<close>

definition issue_token :: "bytes option \<Rightarrow> (bytes \<times> bytes) option" where
  "issue_token rnd =
     map_option (\<lambda>buf. let token = TokenPrefix @ b64_encode buf in (token, hash_token token)) rnd"

datatype issue_error = RandFailed | InvalidEntry client_error

definition nl :: bytes where "nl = [CHR 0x0A]"

definition describe :: "bytes \<Rightarrow> bytes \<Rightarrow> bytes \<Rightarrow> bytes" where
  "describe name token digest =
     ''Token for '' @ name @ '' (shown once, store it now):'' @ nl @ nl @ ''  '' @ token @ nl @ nl
     @ ''Add to clients.yaml:'' @ nl @ nl @ ''  - name: '' @ name @ nl
     @ ''    tokenSHA256: '' @ digest @ nl @ nl
     @ ''The client uses it as:'' @ nl @ nl @ ''  export CLAUDE_CODE_OAUTH_TOKEN='' @ token @ nl
     @ ''  export ANTHROPIC_BASE_URL=http://<proxy-host>:8080'' @ nl"

definition issue_and_describe :: "bytes \<Rightarrow> bytes option \<Rightarrow> (issue_error, bytes) outcome" where
  "issue_and_describe name rnd =
     (case issue_token rnd of
        None \<Rightarrow> Inl RandFailed
      | Some (token, digest) \<Rightarrow>
          (case validate_registry
             \<lparr>r_clients = [\<lparr>c_name = name, c_token_sha256 = digest, c_enabled = None\<rparr>],
              r_by_hash = None\<rparr> of
             Inl e \<Rightarrow> Inl (InvalidEntry e)
           | Inr _ \<Rightarrow> Inr (describe name token digest)))"

lemma issued_digest_ok: "issue_token rnd = Some (token, digest) \<Longrightarrow>
  hash_pattern digest \<and> digest = hash_token token \<and> to_lower digest = digest \<and> token \<noteq> []"
  by (auto simp: issue_token_def Let_def hash_token_pattern TokenPrefix_def)

text \<open>A token is issued and described exactly when randomness is available and the name is
  a valid label: nothing is printed for a name the registry would reject.\<close>

theorem issue_describes_iff_valid:
  "(\<exists>out. issue_and_describe name rnd = Inr out) \<longleftrightarrow> rnd \<noteq> None \<and> name_pattern name"
proof (cases "issue_token rnd")
  case None
  then show ?thesis by (simp add: issue_and_describe_def issue_token_def)
next
  case (Some td)
  obtain token digest where td: "td = (token, digest)" by force
  let ?r = "\<lparr>r_clients = [\<lparr>c_name = name, c_token_sha256 = digest, c_enabled = None\<rparr>],
              r_by_hash = None\<rparr>"
  have "registry_ok ?r \<longleftrightarrow> name_pattern name"
    using issued_digest_ok [OF Some [unfolded td]]
    by (auto simp: registry_ok_def client_ok_def digest_of_def hash_token_pattern)
  moreover have "(\<exists>out. issue_and_describe name rnd = Inr out) \<longleftrightarrow> (\<exists>r'. validate_registry ?r = Inr r')"
    using Some td by (auto simp: issue_and_describe_def split: sum.splits)
  moreover have "rnd \<noteq> None" using Some by (auto simp: issue_token_def)
  ultimately show ?thesis by (simp add: validate_registry_Some)
qed

text \<open>Property C26: Round trip. Once the printed entry is in a registry that validates, presenting the
  issued token finds that entry.\<close>

theorem issued_token_found:
  assumes "issue_token rnd = Some (token, digest)"
    and "\<lparr>c_name = name, c_token_sha256 = digest, c_enabled = None\<rparr> \<in> set (r_clients r)"
    and "validate_registry r = Inr r'"
  shows "registry_lookup (Some r') token =
           Some \<lparr>c_name = name, c_token_sha256 = digest, c_enabled = None\<rparr>"
proof -
  let ?e = "\<lparr>c_name = name, c_token_sha256 = digest, c_enabled = None\<rparr>"
  have d: "digest = hash_token token" "token \<noteq> []" "digest_of ?e = hash_token token"
    using issued_digest_ok [OF assms(1)] by (simp_all add: digest_of_def)
  then have "?e = ?e\<lparr>c_token_sha256 := hash_token token\<rparr>" by simp
  with d assms(2) show ?thesis unfolding registry_lookup_Some [OF assms(3)] by blast
qed

definition example_token :: bytes where
  "example_token = TokenPrefix @ b64_encode (replicate 32 (CHR 0x00))"

definition example_client :: client where
  "example_client = \<lparr>c_name = ''maria'', c_token_sha256 = hash_token example_token, c_enabled = None\<rparr>"

definition example_registry :: registry where
  "example_registry = \<lparr>r_clients = [example_client], r_by_hash = None\<rparr>"

lemma example_registry_valid:
  "validate_registry example_registry =
     Inr (example_registry\<lparr>r_by_hash := Some (find_by_digest [example_client])\<rparr>)"
proof -
  have "name_pattern ''maria''" by code_simp
  then show ?thesis
    by (simp add: validate_registry_Inr registry_ok_def example_registry_def client_ok_def
        example_client_def digest_of_def hash_token_pattern)
qed

theorem registry_lookup_iff_witness:
  "registry_lookup (Some (example_registry\<lparr>r_by_hash := Some (find_by_digest [example_client])\<rparr>))
     example_token = Some example_client"
  by (subst registry_lookup_iff [OF example_registry_valid])
    (auto simp: example_registry_def example_client_def digest_of_def example_token_def
      TokenPrefix_def)

theorem issued_token_found_witness:
  "registry_lookup (Some (example_registry\<lparr>r_by_hash := Some (find_by_digest [example_client])\<rparr>))
     example_token = Some \<lparr>c_name = ''maria'', c_token_sha256 = hash_token example_token,
                           c_enabled = None\<rparr>"
  by (rule issued_token_found [of "Some (replicate 32 (CHR 0x00))", OF _ _ example_registry_valid])
    (simp_all add: issue_token_def example_token_def Let_def example_registry_def example_client_def)

end
