(* ===== verification/Handler.thy ===== *)
theory Handler
  imports Forwarder Failover Router Usage Client
begin

text \<open>
  \<open>internal/proxy/handler.go\<close>: one request served by the pool. \<open>serve_step\<close> is the body of the
  failover loop, \<open>serve_loop\<close> the loop, \<open>serve_http\<close> the handler with its prologue and the answer when
  every member failed.
\<close>

section \<open>Upstream requests\<close>

definition valid_method :: "bytes \<Rightarrow> bool" where
  "valid_method m \<longleftrightarrow> m \<noteq> [] \<and> list_all is_token_char m"

definition target_url :: "request \<Rightarrow> member \<Rightarrow> bytes" where
  "target_url rq m =
     (let base = trim_right_chars (m_base_url m) ''/'' @ rq_path rq
      in if rq_query rq \<noteq> [] then base @ ''?'' @ rq_query rq else base)"

text \<open>One header value of the credential: set, except that the beta is merged into the caller's.\<close>

definition inject_value :: "bytes \<Rightarrow> bytes \<Rightarrow> header \<Rightarrow> header" where
  "inject_value k v h =
     (if \<not> equal_fold k beta_header then hset h k v
      else let existing = hget h beta_header in
        if existing = [] then hset h beta_header v
        else if \<not> contains existing v then hset h beta_header (existing @ '','' @ v)
        else h)"

definition inject_auth :: "header \<Rightarrow> header \<Rightarrow> header" where
  "inject_auth auth h = foldl (\<lambda>h (k, vs). foldl (\<lambda>h v. inject_value k v h) h vs) h auth"

definition copy_header :: "header \<Rightarrow> header" where
  "copy_header src = foldl (\<lambda>h (k, vs). foldl (\<lambda>h v. hadd h k v) h vs) [] src"

definition decimal :: "int \<Rightarrow> bytes" where
  "decimal n = (case itoa n of Some s \<Rightarrow> s | None \<Rightarrow> [])"

definition upstream_header :: "request \<Rightarrow> header \<Rightarrow> bytes \<Rightarrow> header" where
  "upstream_header rq auth rw_body =
     (let h = inject_auth auth (copy_header (rq_header rq))
      in if rw_body \<noteq> [] then hset h ''Content-Length'' (decimal (int (length rw_body))) else h)"

text \<open>\<open>http.NewRequestWithContext\<close> fails on an invalid method or URL; an empty method means GET. A
  credential file that cannot be read leaves the request without a credential.\<close>

definition build_request ::
  "(bytes \<Rightarrow> bytes) \<Rightarrow> (bytes \<Rightarrow> bytes option) \<Rightarrow> request \<Rightarrow> bytes \<Rightarrow> member \<Rightarrow> up_request option" where
  "build_request getenv read_file rq body m =
     (let rw_body = rewrite_body body (m_model_map m);
          verb = (if rq_method rq = [] then ''GET'' else rq_method rq)
      in if \<not> valid_method verb \<or> url_parse (target_url rq m) = None then None
         else let auth = (case auth_headers getenv read_file m of None \<Rightarrow> [] | Some h \<Rightarrow> h)
           in Some \<lparr>up_method = verb, up_url = target_url rq m,
                up_header = upstream_header rq auth rw_body, up_body = rw_body\<rparr>)"

section \<open>The handler\<close>

text \<open>The handler's fields, with what is behind them: the pool \<open>loader.Active()\<close> returns, the Redis
  client, \<open>client.Do\<close>, \<open>rand.Intn\<close>, the environment, the file system and the caller's connection.\<close>

record 'w handler =
  h_active :: "pool option"
  h_store :: "'w store"
  h_sticky_mode :: bytes
  h_timeout :: int
  h_do :: "up_request \<Rightarrow> 'w \<Rightarrow> up_response option \<times> 'w"
  h_intn :: "int \<Rightarrow> 'w \<Rightarrow> int \<times> 'w"
  h_getenv :: "bytes \<Rightarrow> 'w \<Rightarrow> bytes"
  h_read_file :: "bytes \<Rightarrow> 'w \<Rightarrow> bytes option"
  h_conn :: "'w conn"

text \<open>\<open>NewHandler\<close>'s default for the time an upstream may take to answer.\<close>

definition response_timeout :: "int \<Rightarrow> int" where
  "response_timeout d = (if d \<le> 0 then 60 * second else d)"

definition new_handler ::
  "pool option \<Rightarrow> 'w store \<Rightarrow> bytes \<Rightarrow> int \<Rightarrow> (up_request \<Rightarrow> 'w \<Rightarrow> up_response option \<times> 'w)
     \<Rightarrow> (int \<Rightarrow> 'w \<Rightarrow> int \<times> 'w) \<Rightarrow> (bytes \<Rightarrow> 'w \<Rightarrow> bytes) \<Rightarrow> (bytes \<Rightarrow> 'w \<Rightarrow> bytes option) \<Rightarrow> 'w conn
     \<Rightarrow> 'w handler" where
  "new_handler active st sticky_mode upstream_timeout do_req intn getenv read_file conn =
     \<lparr>h_active = active, h_store = st, h_sticky_mode = sticky_mode,
      h_timeout = response_timeout upstream_timeout, h_do = do_req, h_intn = intn,
      h_getenv = getenv, h_read_file = read_file, h_conn = conn\<rparr>"

definition send :: "'w handler \<Rightarrow> request \<Rightarrow> bytes \<Rightarrow> member \<Rightarrow> 'w \<Rightarrow> up_response option \<times> 'w" where
  "send h rq body m w =
     (case build_request (\<lambda>v. h_getenv h v w) (\<lambda>f. h_read_file h f w) rq body m of
        None \<Rightarrow> (None, w)
      | Some up \<Rightarrow> h_do h up w)"

definition cooldown_seconds :: "member \<Rightarrow> int \<Rightarrow> int" where
  "cooldown_seconds m ttl_sec =
     (let t = (if ttl_sec \<le> 0 then m_cooldown_sec m else ttl_sec) in if t \<le> 0 then 60 else t)"

text \<open>\<open>cooldown\<close> writes with \<open>context.Background()\<close> and ignores the result.\<close>

definition cooldown :: "'w handler \<Rightarrow> member \<Rightarrow> int \<Rightarrow> 'w \<Rightarrow> 'w" where
  "cooldown h m ttl_sec w =
     (if h_store h = None then w
      else snd (set_cooldown (h_store h) BackgroundCtx (m_id m) (seconds (cooldown_seconds m ttl_sec)) w))"

definition filter_not_tried :: "member list \<Rightarrow> bytes list \<Rightarrow> member list" where
  "filter_not_tried members tried = filter (\<lambda>m. m_id m \<notin> set tried) members"

record buffered =
  bf_status :: int
  bf_header :: header
  bf_body :: "bytes option"            \<comment> \<open>\<open>None\<close> is a nil slice\<close>

definition buffer_response :: "up_response \<Rightarrow> buffered" where
  "buffer_response rp =
     \<lparr>bf_status = rp_status rp, bf_header = rp_header rp, bf_body = Some (read_all (rp_body rp))\<rparr>"

definition write_headers :: "header \<Rightarrow> 'w rstate \<Rightarrow> 'w rstate" where
  "write_headers h = emit (concat (map (\<lambda>(k, vs). map (HAdd k) vs) h))"

fun copy_stream ::
  "'w conn \<Rightarrow> bytes list \<Rightarrow> usage_observer \<Rightarrow> 'w rstate \<Rightarrow> usage_observer \<times> 'w rstate" where
  "copy_stream conn [] ob st = (ob, st)"
| "copy_stream conn (chunk # chunks) ob st =
     (if chunk = [] then copy_stream conn chunks ob st
      else let ob' = observer_write chunk ob in
        case write_body conn chunk st of
          (ok, st') \<Rightarrow>
            if \<not> ok then (ob', st')
            else copy_stream conn chunks ob' (emit [WFlush] st'))"

text \<open>How the handler, or its loop, ends; \<open>Panicked\<close> is a run-time panic (a non-positive bound for
  \<open>rand.Intn\<close>, a status code \<open>WriteHeader\<close> rejects).\<close>

datatype served = Served | Exhausted "buffered option" | Panicked

definition valid_status :: "int \<Rightarrow> bool" where
  "valid_status c \<longleftrightarrow> 100 \<le> c \<and> c \<le> 999"

text \<open>The session is pinned for an hour; the result of the write is ignored.\<close>

definition pin_session :: "'w handler \<Rightarrow> bytes \<Rightarrow> member \<Rightarrow> 'w rstate \<Rightarrow> 'w rstate" where
  "pin_session h session m st =
     (if h_sticky_mode h = ''redis'' \<and> session \<noteq> [] \<and> h_store h \<noteq> None
      then st\<lparr>rt_world := snd (set_sticky (h_store h) RequestCtx session (m_id m) hour (rt_world st))\<rparr>
      else st)"

definition finish ::
  "'w handler \<Rightarrow> bytes \<Rightarrow> member \<Rightarrow> bytes \<Rightarrow> int \<Rightarrow> header \<Rightarrow> reader \<Rightarrow> 'w rstate \<Rightarrow> served \<times> 'w rstate" where
  "finish h name m session status hdrs body st =
     (let st2 = write_headers hdrs (pin_session h session m st)
      in if \<not> valid_status status then (Panicked, st2)
         else case copy_stream (h_conn h) (rd_chunks body)
                     (new_usage_observer (hget hdrs ''Content-Type'')) (emit [WStatus status] st2) of
           (ob, st3) \<Rightarrow>
             (Served, count (record_usage name (m_id m) (observer_result ob)
                @ [Requests name (m_id m) (decimal status), Latency name (m_id m),
                   CooldownGauge (m_id m) 0]) st3))"

text \<open>The affinity metric: what Redis holds for the session against the member picked.\<close>

definition note_sticky :: "'w handler \<Rightarrow> bytes \<Rightarrow> member \<Rightarrow> bool \<Rightarrow> 'w rstate \<Rightarrow> 'w rstate" where
  "note_sticky h session m try_sticky st =
     (if try_sticky \<and> h_store h \<noteq> None then
        (case get_sticky (h_store h) RequestCtx session (rt_world st) of
           (None, w) \<Rightarrow> st\<lparr>rt_world := w\<rparr>
         | (Some pinned, w) \<Rightarrow>
             count [StickyHits (if pinned = m_id m then ''hit'' else ''miss'')] (st\<lparr>rt_world := w\<rparr>))
      else st)"

text \<open>A response in hand: failed over (the member cools down) or committed to the caller.\<close>

definition try_response ::
  "'w handler \<Rightarrow> bytes \<Rightarrow> bytes \<Rightarrow> member \<Rightarrow> up_response \<Rightarrow> 'w rstate
     \<Rightarrow> (buffered + served) \<times> 'w rstate" where
  "try_response h name session m rp st =
     (if may_failover (rp_status rp) (rp_header rp) then
        let bf = buffer_response rp; body = read_all (rp_body rp) in
        case should_failover (bf_status bf) body (bf_header bf) of
          (should, ttl, reason) \<Rightarrow>
            if should then
              let ttl_sec = cooldown_ttl ttl (m_cooldown_sec m) (is_anthropic m) in
              (Inl bf, count [Failovers name (m_id m) reason, CooldownGauge (m_id m) 1]
                 (st\<lparr>rt_world := cooldown h m ttl_sec (rt_world st)\<rparr>))
            else apfst Inr
              (finish h name m session (bf_status bf) (bf_header bf) (bytes_reader body) st)
      else apfst Inr (finish h name m session (rp_status rp) (rp_header rp) (rp_body rp) st))"

text \<open>The transport failed, or no request could be built.\<close>

definition transport_failure :: "'w handler \<Rightarrow> bytes \<Rightarrow> member \<Rightarrow> 'w rstate \<Rightarrow> 'w rstate" where
  "transport_failure h name m st =
     (let st1 = count [Requests name (m_id m) ''error''] st in
      count [Failovers name (m_id m) ''transport'']
        (st1\<lparr>rt_world := cooldown h m 0 (rt_world st1)\<rparr>))"

definition bad_gateway :: buffered where
  "bad_gateway = \<lparr>bf_status = 502, bf_header = [], bf_body = None\<rparr>"

datatype step_result = Again member buffered | Stop served "bytes list"

definition session_id :: "request \<Rightarrow> bytes" where
  "session_id rq =
     (let s = hget (rq_header rq) ''x-claude-code-session-id''
      in if s = [] then hget (rq_header rq) ''x-session-id'' else s)"

text \<open>One iteration of the loop: go on with the member tried and what it answered, or stop, with the
  members tried in order.\<close>

definition serve_step ::
  "'w handler \<Rightarrow> request \<Rightarrow> bytes \<Rightarrow> bytes \<Rightarrow> member list \<Rightarrow> nat \<Rightarrow> bytes list \<Rightarrow> buffered option
     \<Rightarrow> 'w rstate \<Rightarrow> step_result \<times> 'w rstate" where
  "serve_step h rq name body members attempt tried lst st =
     (let candidates = filter_not_tried members tried; session = session_id rq
      in if candidates = [] then (Stop (Exhausted lst) tried, st)
         else let try_sticky = (h_sticky_mode h = ''redis'' \<and> attempt = 0) in
           case router_pick (h_store h) (h_intn h) candidates session try_sticky (rt_world st) of
             (PickErr e, w) \<Rightarrow> (Stop (Exhausted lst) tried, st\<lparr>rt_world := w\<rparr>)
           | (PickPanic, w) \<Rightarrow> (Stop Panicked tried, st\<lparr>rt_world := w\<rparr>)
           | (Picked m, w) \<Rightarrow>
               let st1 = note_sticky h session m try_sticky (st\<lparr>rt_world := w\<rparr>) in
               (case send h rq body m (rt_world st1) of
                  (None, w') \<Rightarrow>
                    (Again m bad_gateway, transport_failure h name m (st1\<lparr>rt_world := w'\<rparr>))
                | (Some rp, w') \<Rightarrow>
                    (case try_response h name session m rp (st1\<lparr>rt_world := w'\<rparr>) of
                       (Inl bf, st2) \<Rightarrow> (Again m bf, st2)
                     | (Inr res, st2) \<Rightarrow> (Stop res (tried @ [m_id m]), st2))))"

declare serve_step_def [step_defs] Let_def [step_defs]

function serve_loop ::
  "'w handler \<Rightarrow> request \<Rightarrow> bytes \<Rightarrow> bytes \<Rightarrow> member list \<Rightarrow> nat \<Rightarrow> bytes list \<Rightarrow> buffered option
     \<Rightarrow> 'w rstate \<Rightarrow> (served \<times> bytes list) \<times> 'w rstate" where
  "serve_loop h rq name body members attempt tried lst st =
     (if attempt < length members then
        (case serve_step h rq name body members attempt tried lst st of
           (Again m bf, st') \<Rightarrow>
             serve_loop h rq name body members (Suc attempt) (tried @ [m_id m]) (Some bf) st'
         | (Stop res tried', st') \<Rightarrow> ((res, tried'), st'))
      else ((Exhausted lst, tried), st))"
  by pat_completeness auto
termination
  by (relation "measure (\<lambda>(h, rq, name, body, members, attempt, _). length members - attempt)") auto

declare serve_loop.simps [simp del]

text \<open>\<open>http.Error\<close>.\<close>

definition http_error :: "'w conn \<Rightarrow> bytes \<Rightarrow> int \<Rightarrow> 'w rstate \<Rightarrow> 'w rstate" where
  "http_error conn msg code st =
     snd (write_body conn (msg @ nl)
       (emit [HDel ''Content-Length'', HSet ''Content-Type'' ''text/plain; charset=utf-8'',
              HSet ''X-Content-Type-Options'' ''nosniff'', WStatus code] st))"

text \<open>\<open>ClientName\<close> of \<open>auth.go\<close>.\<close>

definition client_name :: "request \<Rightarrow> bytes" where
  "client_name rq =
     (case rq_client rq of Some name \<Rightarrow> if name \<noteq> [] then name else UnknownClient | None \<Rightarrow> UnknownClient)"

text \<open>After the loop: the last buffered response if there is one, else a 502.\<close>

definition answer_failure :: "'w handler \<Rightarrow> buffered option \<Rightarrow> 'w rstate \<Rightarrow> bool \<times> 'w rstate" where
  "answer_failure h lst st =
     (case lst of
        Some bf \<Rightarrow>
          (case bf_body bf of
             Some b \<Rightarrow>
               let st1 = write_headers (bf_header bf) st in
               if \<not> valid_status (bf_status bf) then (False, st1)
               else (True, snd (write_body (h_conn h) b (emit [WStatus (bf_status bf)] st1)))
           | None \<Rightarrow> (True, http_error (h_conn h) ''all upstreams failed'' 502 st))
      | None \<Rightarrow> (True, http_error (h_conn h) ''all upstreams failed'' 502 st))"

text \<open>\<open>ServeHTTP\<close>; the result is whether it returned (it panicked otherwise). A body that cannot be
  read is treated as empty.\<close>

definition serve_http :: "'w handler \<Rightarrow> request \<Rightarrow> 'w rstate \<Rightarrow> bool \<times> 'w rstate" where
  "serve_http h rq st =
     (case h_active h of
        None \<Rightarrow> (True, http_error (h_conn h) ''no pool members'' 503 st)
      | Some p \<Rightarrow>
          if p_members p = [] then (True, http_error (h_conn h) ''no pool members'' 503 st)
          else
            let body = (case fst (clone_body (rq_body rq)) of Inl e \<Rightarrow> [] | Inr b \<Rightarrow> b) in
            case serve_loop h rq (client_name rq) body (p_members p) 0 [] None st of
              ((Served, tried), st') \<Rightarrow> (True, st')
            | ((Panicked, tried), st') \<Rightarrow> (False, st')
            | ((Exhausted lst, tried), st') \<Rightarrow> answer_failure h lst st')"

section \<open>What the loop does to the response\<close>

lemma write_body_out:
  "write_body conn b st = (ok, st') \<Longrightarrow>
     \<exists>n. rt_out st' = rt_out st @ [WBody (take n b)]"
  by (auto simp: write_body_def emit_def split: prod.splits)

lemma copy_stream_out:
  "copy_stream conn chunks ob st = (ob', st') \<Longrightarrow>
     \<exists>bs. rt_out st' = rt_out st @ bs \<and> list_all body_event bs"
proof (induction conn chunks ob st rule: copy_stream.induct)
  case (1 conn ob st)
  then show ?case by (intro exI [of _ "[]"]) simp
next
  case (2 conn chunk chunks ob st)
  show ?case
  proof (cases "chunk = []")
    case True
    with 2 show ?thesis by simp
  next
    case False
    obtain ok st1 where w: "write_body conn chunk st = (ok, st1)" by force
    then obtain n where n: "rt_out st1 = rt_out st @ [WBody (take n chunk)]"
      using write_body_out by blast
    show ?thesis
    proof (cases ok)
      case True
      then have rec: "copy_stream conn chunks (observer_write chunk ob) (emit [WFlush] st1) = (ob', st')"
        using 2(3) False w by simp
      have "\<exists>bs. rt_out st' = rt_out (emit [WFlush] st1) @ bs \<and> list_all body_event bs"
        by (rule 2(2) [OF False refl w [symmetric]]) (use True rec in simp_all)
      then obtain bs where "rt_out st' = rt_out (emit [WFlush] st1) @ bs" "list_all body_event bs"
        by blast
      with n show ?thesis by (intro exI [of _ "WBody (take n chunk) # WFlush # bs"]) simp
    next
      case failed: False
      with False w 2(3) n show ?thesis by (intro exI [of _ "[WBody (take n chunk)]"]) simp
    qed
  qed
qed

lemma list_all_header_adds: "list_all header_event (concat (map (\<lambda>(k, vs). map (HAdd k) vs) h))"
  by (induction h) (auto simp: list_all_iff)

lemma write_headers_out:
  "\<exists>hs. rt_out (write_headers h st) = rt_out st @ hs \<and> list_all header_event hs"
  unfolding write_headers_def using list_all_header_adds [of h] by auto

lemma finish_out:
  assumes "finish h name m session status hdrs body st = (res, st')"
  shows "res = Panicked \<and> \<not> valid_status status
    \<or> res = Served \<and> (\<exists>es. rt_out st' = rt_out st @ es \<and> answers es)"
proof -
  let ?st1 = "pin_session h session m st"
  have st1: "rt_out ?st1 = rt_out st" by (simp add: pin_session_def)
  obtain hs where hs: "rt_out (write_headers hdrs ?st1) = rt_out st @ hs" "list_all header_event hs"
    using write_headers_out st1 by metis
  obtain ob st3 where cs: "copy_stream (h_conn h) (rd_chunks body)
      (new_usage_observer (hget hdrs ''Content-Type''))
      (emit [WStatus status] (write_headers hdrs ?st1)) = (ob, st3)" by force
  obtain bs where "rt_out st3 = rt_out (emit [WStatus status] (write_headers hdrs ?st1)) @ bs"
      "list_all body_event bs"
    using copy_stream_out [OF cs] by blast
  then show ?thesis
    using assms cs hs answersI [of hs bs status] by (auto simp: finish_def Let_def split: if_splits)
qed

text \<open>How a response in hand is decided: every later case analysis of \<open>try_response\<close> is this one.\<close>

lemma try_response_runs:
  assumes step: "try_response h name session m rp st = (res, st')"
  obtains (failed) ttl reason where "res = Inl (buffer_response rp)"
      "should_failover (rp_status rp) (read_all (rp_body rp)) (rp_header rp) = (True, ttl, reason)"
      "st' = count [Failovers name (m_id m) reason, CooldownGauge (m_id m) 1]
         (st\<lparr>rt_world := cooldown h m (cooldown_ttl ttl (m_cooldown_sec m) (is_anthropic m)) (rt_world st)\<rparr>)"
    | (final) r body where "res = Inr r" "read_all body = read_all (rp_body rp)"
      "\<not> fst (should_failover (rp_status rp) (read_all (rp_body rp)) (rp_header rp))"
      "finish h name m session (rp_status rp) (rp_header rp) body st = (r, st')"
proof -
  obtain should ttl reason where s:
    "should_failover (rp_status rp) (read_all (rp_body rp)) (rp_header rp) = (should, ttl, reason)"
    by (metis prod_cases3)
  show thesis
  proof (cases "should \<and> may_failover (rp_status rp) (rp_header rp)")
    case True
    with step s failed show thesis by (auto simp: try_response_def buffer_response_def Let_def)
  next
    case False
    then have keep: "\<not> should" using should_may s by (metis fst_conv)
    define body where "body = (if may_failover (rp_status rp) (rp_header rp)
      then bytes_reader (read_all (rp_body rp)) else rp_body rp)"
    obtain r st1 where f: "finish h name m session (rp_status rp) (rp_header rp) body st = (r, st1)" by force
    then have "res = Inr r" "st1 = st'" using step s keep
      by (auto simp: try_response_def buffer_response_def Let_def body_def split: if_splits)
    moreover have "read_all body = read_all (rp_body rp)" by (simp add: body_def)
    ultimately show thesis using final keep s f by simp
  qed
qed

lemma try_response_out:
  assumes "try_response h name session m rp st = (res, st')"
  shows "case res of
      Inl bf \<Rightarrow> rt_out st' = rt_out st \<and> bf = buffer_response rp
        \<and> fst (should_failover (rp_status rp) (read_all (rp_body rp)) (rp_header rp))
    | Inr Served \<Rightarrow> \<exists>es. rt_out st' = rt_out st @ es \<and> answers es
    | Inr Panicked \<Rightarrow> \<not> valid_status (rp_status rp)
    | Inr (Exhausted l) \<Rightarrow> False"
  using assms
proof (cases rule: try_response_runs)
  case (final r body)
  then show ?thesis using finish_out [OF final(4)] by (auto split: served.splits)
qed simp

lemma note_sticky_out [simp]: "rt_out (note_sticky h session m b st) = rt_out st"
  by (auto simp: note_sticky_def split: prod.splits option.splits)

lemma transport_failure_out [simp]: "rt_out (transport_failure h name m st) = rt_out st"
  by (simp add: transport_failure_def Let_def)

lemma router_pick_candidate:
  "router_pick s intn members session b w = (Picked m, w') \<Longrightarrow> m \<in> set members \<and> is_enabled m"
  by (erule router_pick_source)
    (auto simp: healthy_members_def Let_def split: prod.splits)

text \<open>How one iteration runs: every later case analysis of \<open>serve_step\<close> is this one.\<close>

lemma serve_step_runs:
  assumes step: "serve_step h rq name body members a tried l st = (r, st')"
  obtains (no_candidate) "filter_not_tried members tried = []" "r = Stop (Exhausted l) tried" "st' = st"
    | (no_pick) b p where "filter_not_tried members tried \<noteq> []"
      "router_pick (h_store h) (h_intn h) (filter_not_tried members tried) (session_id rq) b (rt_world st)
         = (p, rt_world st')"
      "p = PickPanic \<and> r = Stop Panicked tried \<or> (\<exists>e. p = PickErr e) \<and> r = Stop (Exhausted l) tried"
      "st' = st\<lparr>rt_world := rt_world st'\<rparr>"
    | (sent) b m w st1 o1 w1 where "m \<in> set members" "is_enabled m" "m_id m \<notin> set tried"
      "router_pick (h_store h) (h_intn h) (filter_not_tried members tried) (session_id rq) b (rt_world st)
         = (Picked m, w)"
      "st1 = note_sticky h (session_id rq) m b (st\<lparr>rt_world := w\<rparr>)"
      "send h rq body m (rt_world st1) = (o1, w1)"
      "o1 = None \<and> r = Again m bad_gateway \<and> st' = transport_failure h name m (st1\<lparr>rt_world := w1\<rparr>)
       \<or> (\<exists>rp bf. o1 = Some rp \<and> r = Again m bf
            \<and> try_response h name (session_id rq) m rp (st1\<lparr>rt_world := w1\<rparr>) = (Inl bf, st'))
       \<or> (\<exists>rp res. o1 = Some rp \<and> r = Stop res (tried @ [m_id m])
            \<and> try_response h name (session_id rq) m rp (st1\<lparr>rt_world := w1\<rparr>) = (Inr res, st'))"
proof (cases "filter_not_tried members tried = []")
  case True
  with step no_candidate show thesis by (simp add: serve_step_def)
next
  case ne: False
  let ?b = "h_sticky_mode h = ''redis'' \<and> a = 0"
  obtain p w where p: "router_pick (h_store h) (h_intn h) (filter_not_tried members tried) (session_id rq) ?b
      (rt_world st) = (p, w)" by force
  show thesis
  proof (cases p)
    case (Picked m)
    let ?st1 = "note_sticky h (session_id rq) m ?b (st\<lparr>rt_world := w\<rparr>)"
    have "m \<in> set (filter_not_tried members tried)" "is_enabled m" using router_pick_candidate p Picked by metis+
    moreover obtain o1 w1 where o: "send h rq body m (rt_world ?st1) = (o1, w1)" by force
    moreover note step [unfolded serve_step_def, simplified ne p Picked o Let_def, simplified]
    ultimately show thesis
      using p Picked by (intro sent [of m ?b w ?st1 o1 w1])
        (auto simp: filter_not_tried_def split: option.splits prod.splits sum.splits)
  qed (use step ne p in \<open>auto simp: step_defs intro: no_pick [of ?b p]\<close>)
qed

text \<open>What an iteration leaves of the answer.\<close>

lemma serve_step_cases:
  assumes "serve_step h rq name body members a tried l st = (r, st')"
  obtains (stop) res where "r = Stop res tried" "rt_out st' = rt_out st"
      "filter_not_tried members tried = [] \<and> res = Exhausted l \<and> st' = st
       \<or> (\<exists>b e. router_pick (h_store h) (h_intn h) (filter_not_tried members tried) (session_id rq) b
            (rt_world st) = (PickErr e, rt_world st')) \<and> res = Exhausted l
       \<or> (\<exists>b. router_pick (h_store h) (h_intn h) (filter_not_tried members tried) (session_id rq) b
            (rt_world st) = (PickPanic, rt_world st')) \<and> res = Panicked"
    | (again) m bf where "r = Again m bf" "m \<in> set members" "is_enabled m" "m_id m \<notin> set tried"
      "rt_out st' = rt_out st"
    | (answered) m res where "r = Stop res (tried @ [m_id m])" "m \<in> set members" "is_enabled m"
      "m_id m \<notin> set tried"
      "res = Panicked \<or> res = Served \<and> (\<exists>es. rt_out st' = rt_out st @ es \<and> answers es)"
  using assms
proof (cases rule: serve_step_runs)
  case no_candidate
  with stop show ?thesis by simp
next
  case (no_pick b p)
  then have "rt_out st' = rt_out st" by (metis rstate.select_convs(2) rstate.surjective rstate.update_convs(1))
  with no_pick show ?thesis by (intro stop [of "case r of Stop res t \<Rightarrow> res"]) auto
next
  case (sent b m w st1 o1 w1)
  have out: "rt_out (st1\<lparr>rt_world := w1\<rparr>) = rt_out st" using sent(5) by simp
  from sent(7) show ?thesis
  proof (elim disjE exE conjE)
    assume "r = Again m bad_gateway" "st' = transport_failure h name m (st1\<lparr>rt_world := w1\<rparr>)"
    with sent out show ?thesis by (intro again [of m bad_gateway]) simp_all
  next
    fix rp bf
    assume "r = Again m bf" "try_response h name (session_id rq) m rp (st1\<lparr>rt_world := w1\<rparr>) = (Inl bf, st')"
    with sent out try_response_out show ?thesis by (intro again [of m bf]) fastforce+
  next
    fix rp res
    assume r: "r = Stop res (tried @ [m_id m])"
      and t: "try_response h name (session_id rq) m rp (st1\<lparr>rt_world := w1\<rparr>) = (Inr res, st')"
    from try_response_out [OF t] out r sent show ?thesis
      by (intro answered [of res m]) (auto split: served.splits)
  qed
qed

text \<open>The rule every property of the loop is proved by: an invariant of the iterations that go on.\<close>

lemma serve_loop_rule:
  assumes "serve_loop h rq name body members a tried l st = ((res, tried'), st')"
    and "I a tried l st"
    and "\<And>a tried l st m bf st'. I a tried l st \<Longrightarrow> a < length members \<Longrightarrow>
      serve_step h rq name body members a tried l st = (Again m bf, st') \<Longrightarrow>
      I (Suc a) (tried @ [m_id m]) (Some bf) st'"
    and "\<And>a tried l st res tried' st'. I a tried l st \<Longrightarrow> a < length members \<Longrightarrow>
      serve_step h rq name body members a tried l st = (Stop res tried', st') \<Longrightarrow> Q res tried' st'"
    and "\<And>a tried l st. I a tried l st \<Longrightarrow> length members \<le> a \<Longrightarrow> Q (Exhausted l) tried st"
  shows "Q res tried' st'"
  using assms(1,2)
proof (induction "length members - a" arbitrary: a tried l st)
  case 0
  then have "res = Exhausted l" "tried' = tried" "st' = st"
    by (simp_all add: serve_loop.simps [of _ _ _ _ _ a])
  then show ?case using assms(5) [OF "0.prems"(2)] "0.hyps" by simp
next
  case (Suc n)
  then have a: "a < length members" by simp
  obtain r st1 where s: "serve_step h rq name body members a tried l st = (r, st1)" by force
  show ?case
  proof (cases r)
    case (Again m bf)
    then have "serve_loop h rq name body members (Suc a) (tried @ [m_id m]) (Some bf) st1
        = ((res, tried'), st')"
      using Suc.prems(1) a s by (simp add: serve_loop.simps [of _ _ _ _ _ a])
    moreover have "n = length members - Suc a" using Suc.hyps(2) by simp
    moreover have "I (Suc a) (tried @ [m_id m]) (Some bf) st1"
      using assms(3) Suc.prems(2) a s Again by blast
    ultimately show ?thesis using Suc.hyps(1) by blast
  next
    case (Stop res1 t1)
    then have "res1 = res" "t1 = tried'" "st1 = st'"
      using Suc.prems(1) a s by (simp_all add: serve_loop.simps [of _ _ _ _ _ a])
    then show ?thesis using assms(4) Suc.prems(2) a s Stop by blast
  qed
qed

end
