(* ===== verification/Handler_Correct.thy ===== *)
theory Handler_Correct
  imports Handler
begin

text \<open>
  The contract of the request handler: one answer per request, transparent pass-through of the
  answer chosen, at most one upstream request per member, every member tried before giving up, a cooldown for every
  member that failed.
\<close>

section \<open>An example\<close>

text \<open>Two members: the first is rate limited, the second answers.\<close>

definition demo_member :: "bytes \<Rightarrow> member" where
  "demo_member i = example_member\<lparr>m_id := i, m_base_url := ''https://'' @ i, m_weight := 1\<rparr>"

definition demo_do :: "up_request \<Rightarrow> 'w \<Rightarrow> up_response option \<times> 'w" where
  "demo_do up w =
     (if up_url up = ''https://a/v1'' then
        (Some \<lparr>rp_status = 429, rp_header = [], rp_body = \<lparr>rd_chunks = [''rate_limit''], rd_fails = False\<rparr>\<rparr>, w)
      else if up_url up = ''https://b/v1'' then
        (Some \<lparr>rp_status = 200, rp_header = [(''Content-Type'', [''text/event-stream''])],
               rp_body = \<lparr>rd_chunks = [''he'', ''llo''], rd_fails = False\<rparr>\<rparr>, w)
      else (None, w))"

definition demo_conn :: "'w conn" where "demo_conn b w = ((length b, True), w)"

definition demo_handler :: "'w store \<Rightarrow> 'w handler" where
  "demo_handler st =
     new_handler (Some \<lparr>p_members = [demo_member ''a'', demo_member ''b'']\<rparr>) st ''lb'' 0 demo_do
       (\<lambda>n w. (0, w)) (\<lambda>v w. ''k'') (\<lambda>f w. None) demo_conn"

definition demo_request :: request where
  "demo_request = \<lparr>rq_method = ''POST'', rq_path = ''/v1'', rq_query = [], rq_header = [],
     rq_body = None, rq_remote = ''10.0.0.1:1'', rq_client = Some ''alice''\<rparr>"

definition start_state :: "'w \<Rightarrow> 'w rstate" where
  "start_state w = \<lparr>rt_world = w, rt_out = [], rt_metrics = [], rt_log = [], rt_scope = None\<rparr>"

section \<open>One answer\<close>

lemma serve_loop_answers:
  assumes "serve_loop h rq name body members a tried l st = ((res, tried'), st')"
  shows "res = Panicked \<or> res = Served \<and> (\<exists>es. rt_out st' = rt_out st @ es \<and> answers es)
    \<or> (\<exists>bf. res = Exhausted bf) \<and> rt_out st' = rt_out st"
proof (rule serve_loop_rule [OF assms, where I = "\<lambda>a t l s. rt_out s = rt_out st"])
  show "rt_out s' = rt_out st"
    if "rt_out s = rt_out st" "serve_step h rq name body members b t k s = (Again m bf, s')"
    for b t k s m bf s'
    using that(2) by (cases rule: serve_step_cases) (use that(1) in simp_all)
  show "r = Panicked \<or> r = Served \<and> (\<exists>es. rt_out s' = rt_out st @ es \<and> answers es)
      \<or> (\<exists>bf. r = Exhausted bf) \<and> rt_out s' = rt_out st"
    if "rt_out s = rt_out st" "serve_step h rq name body members b t k s = (Stop r t', s')"
    for b t k s r t' s'
    using that(2) by (cases rule: serve_step_cases) (use that(1) in auto)
qed auto

lemma http_error_answers:
  "\<exists>es. rt_out (http_error conn msg code st) = rt_out st @ es \<and> answers es"
proof -
  let ?hs = "[HDel ''Content-Length'', HSet ''Content-Type'' ''text/plain; charset=utf-8'',
    HSet ''X-Content-Type-Options'' ''nosniff'']"
  obtain ok st' where w: "write_body conn (msg @ nl) (emit (?hs @ [WStatus code]) st) = (ok, st')"
    by force
  obtain n where n: "rt_out st' = rt_out st @ ?hs @ [WStatus code] @ [WBody (take n (msg @ nl))]"
    using write_body_out [OF w] by auto
  have "answers (?hs @ WStatus code # [WBody (take n (msg @ nl))])"
    by (rule answersI) simp_all
  moreover have "rt_out (http_error conn msg code st) =
      rt_out st @ ?hs @ WStatus code # [WBody (take n (msg @ nl))]"
    using w n by (simp add: http_error_def)
  ultimately show ?thesis by blast
qed

lemma answer_failure_answers:
  assumes "answer_failure h l st = (True, st')"
  shows "\<exists>es. rt_out st' = rt_out st @ es \<and> answers es"
proof (cases "\<exists>bf b. l = Some bf \<and> bf_body bf = Some b")
  case False
  then have "st' = http_error (h_conn h) ''all upstreams failed'' 502 st"
    using assms by (auto simp: answer_failure_def split: option.splits)
  then show ?thesis using http_error_answers by blast
next
  case True
  then obtain bf b where bf: "l = Some bf" "bf_body bf = Some b" by blast
  obtain hs where hs: "rt_out (write_headers (bf_header bf) st) = rt_out st @ hs"
    "list_all header_event hs" using write_headers_out by blast
  obtain ok st1 where w: "write_body (h_conn h) b
      (emit [WStatus (bf_status bf)] (write_headers (bf_header bf) st)) = (ok, st1)" by force
  obtain n where "rt_out st1 = rt_out st @ hs @ WStatus (bf_status bf) # [WBody (take n b)]"
    using write_body_out [OF w] hs by auto
  moreover have "st' = st1"
    using assms bf w by (auto simp: answer_failure_def Let_def split: if_splits)
  ultimately show ?thesis
    using answersI [OF hs(2), of "[WBody (take n b)]" "bf_status bf"] by auto
qed

lemma serve_http_answers:
  assumes "serve_http h rq st = (True, st')"
  shows "\<exists>es. rt_out st' = rt_out st @ es \<and> answers es"
proof (cases "\<exists>p. h_active h = Some p \<and> p_members p \<noteq> []")
  case False
  then have "st' = http_error (h_conn h) ''no pool members'' 503 st"
    using assms by (auto simp: serve_http_def split: option.splits)
  then show ?thesis using http_error_answers by blast
next
  case True
  then obtain p where p: "h_active h = Some p" "p_members p \<noteq> []" by blast
  let ?body = "case fst (clone_body (rq_body rq)) of Inl e \<Rightarrow> [] | Inr b \<Rightarrow> b"
  obtain res tried st1 where l:
    "serve_loop h rq (client_name rq) ?body (p_members p) 0 [] None st = ((res, tried), st1)"
    by (metis prod.exhaust)
  show ?thesis
  proof (cases res)
    case Served
    then have "st' = st1" using assms p l by (simp add: serve_http_def)
    then show ?thesis using serve_loop_answers [OF l] Served by auto
  next
    case (Exhausted bf)
    then have "answer_failure h bf st1 = (True, st')" using assms p l by (simp add: serve_http_def)
    then show ?thesis
      using answer_failure_answers [of h bf st1 st'] serve_loop_answers [OF l] Exhausted by auto
  next
    case Panicked
    then show ?thesis using assms p l by (simp add: serve_http_def)
  qed
qed

text \<open>Property C4: whatever the pool, Redis, the upstreams and the caller do, a request whose handler
  returns has been answered exactly once: headers first, then one status, then only body bytes.
  No attempt that was failed over has left anything in the answer.\<close>

theorem serve_http_answers_once:
  assumes "serve_http h rq st = (True, st')"
  shows "\<exists>es. rt_out st' = rt_out st @ es \<and> answers es"
  using assms by (rule serve_http_answers)

theorem serve_http_answers_once_witness:
  "(\<exists>es. rt_out (snd (serve_http (demo_handler None) demo_request (start_state ()))) = es \<and> answers es)
   \<and> rs_body (deliver (rt_out (snd (serve_http (demo_handler None) demo_request (start_state ())))))
       = ''hello''"
proof -
  have "fst (serve_http (demo_handler None) demo_request (start_state ()))" by code_simp
  then have "serve_http (demo_handler None) demo_request (start_state ()) =
      (True, snd (serve_http (demo_handler None) demo_request (start_state ())))" by (simp add: prod_eq_iff)
  from serve_http_answers_once [OF this]
  have "\<exists>es. rt_out (snd (serve_http (demo_handler None) demo_request (start_state ()))) = es \<and> answers es"
    by (simp add: start_state_def)
  moreover have "rs_body (deliver (rt_out (snd (serve_http (demo_handler None) demo_request
      (start_state ()))))) = ''hello''" by code_simp
  ultimately show ?thesis by blast
qed

section \<open>Who is tried\<close>

lemma card_enabled_ids: "card (m_id ` {m \<in> set members. is_enabled m}) \<le> length members"
proof -
  have "card (m_id ` {m \<in> set members. is_enabled m}) \<le> card (m_id ` set members)"
    by (intro card_mono) auto
  also have "\<dots> \<le> length members" using card_length [of "map m_id members"] by simp
  finally show ?thesis .
qed

text \<open>As many members tried as the pool has means that every enabled one was.\<close>

lemma tried_full:
  assumes "distinct t" "set t \<subseteq> m_id ` set (filter is_enabled members)" "length members \<le> length t"
  shows "set t = m_id ` set (filter is_enabled members)"
proof (rule card_seteq)
  show "card (m_id ` set (filter is_enabled members)) \<le> card (set t)"
    using card_enabled_ids [of members] assms(1,3) by (simp add: distinct_card)
qed (use assms(2) in simp_all)

text \<open>The requests sent so far, read off the outside world: every call of \<open>client.Do\<close> appends its
  request, and nothing else does.\<close>

definition observes :: "'w handler \<Rightarrow> ('w \<Rightarrow> up_request list) \<Rightarrow> bool" where
  "observes h sent \<longleftrightarrow>
     (\<forall>up w. sent (snd (h_do h up w)) = sent w @ [up]) \<and> (\<forall>n w. sent (snd (h_intn h n w)) = sent w)
   \<and> (\<forall>b w. sent (snd (h_conn h b w)) = sent w)
   \<and> (\<forall>cl. h_store h = Some cl \<longrightarrow>
        (\<forall>c ks w. sent (snd (rc_mget cl c ks w)) = sent w) \<and> (\<forall>c k w. sent (snd (rc_get cl c k w)) = sent w)
      \<and> (\<forall>c k v ttl w. sent (snd (rc_set cl c k v ttl w)) = sent w))"

lemma observes_pick:
  assumes "observes h sent"
  shows "sent (snd (router_pick (h_store h) (h_intn h) members session b w)) = sent w"
proof -
  have choice: "sent (snd (weighted_choice (h_intn h) session ms v)) = sent v" for ms v
    using assms by (simp add: observes_def weighted_choice_def random_pick_def Let_def split_beta)
  have pin: "sent (snd (get_sticky (h_store h) RequestCtx session v)) = sent v" for v
    using assms by (auto simp: observes_def get_sticky_def split: option.splits)
  obtain ids healthy w1 where h: "healthy_members (h_store h) members w = (ids, healthy, w1)"
    by (metis prod_cases3)
  then have "sent w1 = sent w"
    using assms by (auto simp: observes_def healthy_members_def filter_healthy_def Let_def
        split: option.splits prod.splits) (metis snd_conv)+
  with h choice [of healthy] pin [of w1] show ?thesis
    by (auto simp: router_pick_def split: option.splits prod.splits)
qed

lemma observes_write_body: "observes h sent \<Longrightarrow> sent (rt_world (snd (write_body (h_conn h) b st))) = sent (rt_world st)"
  by (auto simp: observes_def write_body_def emit_def split: prod.splits) (metis snd_conv)

lemma observes_copy_stream:
  assumes "observes h sent"
  shows "sent (rt_world (snd (copy_stream (h_conn h) chunks ob st))) = sent (rt_world st)"
proof (induction chunks arbitrary: ob st)
  case (Cons chunk chunks)
  have "sent (rt_world (snd (write_body (h_conn h) chunk st))) = sent (rt_world st)"
    by (rule observes_write_body [OF assms])
  with Cons show ?case by (auto simp: Let_def emit_def split: prod.splits)
qed simp

lemma observes_cooldown: "observes h sent \<Longrightarrow> sent (cooldown h m t w) = sent w"
  by (auto simp: observes_def cooldown_def set_cooldown_def split: option.splits)

lemma observes_steps:
  assumes "observes h sent"
  shows "sent (rt_world (note_sticky h session m b st)) = sent (rt_world st)"
    "sent (rt_world (transport_failure h name m st)) = sent (rt_world st)"
    "sent (rt_world (snd (finish h name m session status hdrs body st))) = sent (rt_world st)"
    "sent (rt_world (http_error (h_conn h) msg code st)) = sent (rt_world st)"
    "sent (rt_world (snd (answer_failure h l st))) = sent (rt_world st)"
proof -
  show "sent (rt_world (note_sticky h session m b st)) = sent (rt_world st)"
    using assms by (auto simp: observes_def note_sticky_def get_sticky_def split: option.splits prod.splits)
      (metis snd_conv)+
  show "sent (rt_world (transport_failure h name m st)) = sent (rt_world st)"
    by (simp add: transport_failure_def Let_def observes_cooldown [OF assms])
  have "sent (rt_world (pin_session h session m st)) = sent (rt_world st)"
    using assms by (auto simp: observes_def pin_session_def set_sticky_def split: option.splits)
  then show "sent (rt_world (snd (finish h name m session status hdrs body st))) = sent (rt_world st)"
    using observes_copy_stream [OF assms, of "rd_chunks body" "new_usage_observer (hget hdrs ''Content-Type'')"
        "emit [WStatus status] (write_headers hdrs (pin_session h session m st))"]
    by (auto simp: finish_def Let_def write_headers_def split: prod.splits)
  show http: "sent (rt_world (http_error (h_conn h) msg code st)) = sent (rt_world st)" for msg code
    by (simp add: http_error_def observes_write_body [OF assms])
  show "sent (rt_world (snd (answer_failure h l st))) = sent (rt_world st)"
    by (auto simp: answer_failure_def http Let_def observes_write_body [OF assms] write_headers_def split: option.splits)
qed

lemma observes_try_response:
  assumes "observes h sent" and "try_response h name session m rp st = (res, st')"
  shows "sent (rt_world st') = sent (rt_world st)"
  using assms(2)
proof (cases rule: try_response_runs)
  case (failed ttl reason)
  then show ?thesis by (simp add: observes_cooldown [OF assms(1)])
next
  case (final r body)
  then show ?thesis using observes_steps(3) [OF assms(1)] by (metis snd_conv)
qed

text \<open>The body that is forwarded.\<close>

definition sent_body :: "request \<Rightarrow> bytes" where
  "sent_body rq = (case fst (clone_body (rq_body rq)) of Inl e \<Rightarrow> [] | Inr b \<Rightarrow> b)"

text \<open>The requests sent between two states are one each for the members \<open>ms\<close>, which are different
  enabled members of the pool.\<close>

definition requested ::
  "('w \<Rightarrow> up_request list) \<Rightarrow> request \<Rightarrow> bytes \<Rightarrow> member list \<Rightarrow> member list \<Rightarrow> 'w \<Rightarrow> 'w \<Rightarrow> bool" where
  "requested sent rq body members ms w w' \<longleftrightarrow> (\<exists>ups. sent w' = sent w @ ups
     \<and> list_all2 (\<lambda>m up. \<exists>getenv read_file. build_request getenv read_file rq body m = Some up) ms ups)
     \<and> set ms \<subseteq> set (filter is_enabled members) \<and> distinct (map m_id ms)"

lemma requested_none: "sent w' = sent w \<Longrightarrow> requested sent rq body members [] w w'"
  by (simp add: requested_def)

lemma requested_quiet: "requested sent rq body members ms w v \<Longrightarrow> sent w' = sent v \<Longrightarrow>
  requested sent rq body members ms w w'"
  by (simp add: requested_def)

lemma requested_send:
  assumes "observes h sent" and "send h rq body m v = (r, w')" and "requested sent rq body members ms w v"
    and "m \<in> set members" "is_enabled m" "m_id m \<notin> set tried" "m_id ` set ms \<subseteq> set tried"
  shows "\<exists>ms'. requested sent rq body members ms' w w' \<and> m_id ` set ms' \<subseteq> set (tried @ [m_id m])"
proof (cases "build_request (\<lambda>x. h_getenv h x v) (\<lambda>f. h_read_file h f v) rq body m")
  case None
  with assms show ?thesis by (intro exI [of _ ms]) (auto simp: send_def)
next
  case (Some up)
  then have "sent w' = sent v @ [up]" using assms(1,2) by (simp add: send_def observes_def) (metis snd_conv)
  moreover obtain ups where "sent v = sent w @ ups"
      "list_all2 (\<lambda>m up. \<exists>getenv read_file. build_request getenv read_file rq body m = Some up) ms ups"
    using assms(3) by (auto simp: requested_def)
  ultimately have "requested sent rq body members (ms @ [m]) w w'"
    using assms(3-7) Some unfolding requested_def
    by (intro conjI exI [of _ "ups @ [up]"]) (auto intro!: list_all2_appendI)
  with assms(7) show ?thesis by (intro exI [of _ "ms @ [m]"]) auto
qed

lemma serve_step_requests:
  assumes obs: "observes h sent" and step: "serve_step h rq name body members a tried l st = (r, st')"
    and ms: "requested sent rq body members ms w (rt_world st)" "m_id ` set ms \<subseteq> set tried"
  shows "\<exists>ms'. requested sent rq body members ms' w (rt_world st')
    \<and> m_id ` set ms' \<subseteq> set (case r of Again m bf \<Rightarrow> tried @ [m_id m] | Stop res t \<Rightarrow> t)"
  using step
proof (cases rule: serve_step_runs)
  case no_candidate
  with ms show ?thesis by auto
next
  case (no_pick b p)
  have "sent (rt_world st') = sent (rt_world st)"
    using observes_pick [OF obs, of "filter_not_tried members tried" "session_id rq" b "rt_world st"] no_pick(2) by simp
  with no_pick(3) ms requested_quiet show ?thesis by fastforce
next
  case (sent b m v st1 o1 w1)
  have "sent v = sent (rt_world st)"
    using observes_pick [OF obs, of "filter_not_tried members tried" "session_id rq" b "rt_world st"] sent(4) by simp
  then have "sent (rt_world st1) = sent (rt_world st)"
    using observes_steps(1) [OF obs, of "session_id rq" m b "st\<lparr>rt_world := v\<rparr>"] sent(5) by simp
  from requested_send [OF obs sent(6) requested_quiet [OF ms(1) this] sent(1-3) ms(2)]
  obtain ms' where ms': "requested sent rq body members ms' w w1" "m_id ` set ms' \<subseteq> set (tried @ [m_id m])" by blast
  have "sent (rt_world st') = sent w1"
    using sent(7) observes_try_response [OF obs] observes_steps(2) [OF obs] by fastforce
  then have "requested sent rq body members ms' w (rt_world st')" by (rule requested_quiet [OF ms'(1)])
  with ms'(2) sent(7) show ?thesis by (intro exI [of _ ms']) auto
qed

lemma serve_loop_requests:
  assumes obs: "observes h sent" and loop: "serve_loop h rq name body members 0 [] None st = ((res, tried), st')"
  shows "\<exists>ms. requested sent rq body members ms (rt_world st) (rt_world st')"
proof (rule serve_loop_rule [OF loop, where I = "\<lambda>a t l s. \<exists>ms. requested sent rq body members ms (rt_world st) (rt_world s)
    \<and> m_id ` set ms \<subseteq> set t"])
  show "\<exists>ms. requested sent rq body members ms (rt_world st) (rt_world st) \<and> m_id ` set ms \<subseteq> set []"
    by (rule exI [of _ "[]"]) (simp add: requested_none)
qed (use serve_step_requests [OF obs] in fastforce)+

text \<open>Property C11: a request costs at most one upstream request per member. Of all the requests the handler
  sends while it serves one request, no two are for the same member, none is for a disabled member
  and none for a member that is not in the pool, whatever is answered, fails or is cooled meanwhile;
  so there are at most as many as enabled members.\<close>

theorem serve_http_requests_each_once:
  assumes "observes h sent" and "serve_http h rq st = (ok, st')"
    and "members = (case h_active h of None \<Rightarrow> [] | Some p \<Rightarrow> p_members p)"
  shows "\<exists>ms ups. sent (rt_world st') = sent (rt_world st) @ ups
    \<and> list_all2 (\<lambda>m up. \<exists>getenv read_file. build_request getenv read_file rq (sent_body rq) m = Some up) ms ups
    \<and> set ms \<subseteq> set (filter is_enabled members) \<and> distinct (map m_id ms)
    \<and> length ups \<le> card (m_id ` set (filter is_enabled members))"
proof -
  have "\<exists>ms. requested sent rq (sent_body rq) members ms (rt_world st) (rt_world st')"
  proof (cases "members = []")
    case True
    then have "st' = http_error (h_conn h) ''no pool members'' 503 st"
      using assms(2,3) by (auto simp: serve_http_def split: option.splits)
    then show ?thesis
      using observes_steps(4) [OF assms(1)] by (intro exI [of _ "[]"] requested_none) simp
  next
    case False
    then obtain p where p: "h_active h = Some p" "p_members p = members" "members \<noteq> []"
      using assms(3) by (auto split: option.splits)
    obtain res tried st1 where l: "serve_loop h rq (client_name rq) (sent_body rq) members 0 [] None st
        = ((res, tried), st1)" by (metis prod.exhaust)
    have "st' = st1 \<or> (\<exists>k. st' = snd (answer_failure h k st1))"
      using assms(2) p l by (auto simp: serve_http_def sent_body_def split: served.splits) (metis snd_conv)
    then have "sent (rt_world st') = sent (rt_world st1)" using observes_steps(5) [OF assms(1)] by auto
    with serve_loop_requests [OF assms(1) l] requested_quiet show ?thesis by metis
  qed
  then obtain ms ups where m: "sent (rt_world st') = sent (rt_world st) @ ups"
      "list_all2 (\<lambda>m up. \<exists>getenv read_file. build_request getenv read_file rq (sent_body rq) m = Some up) ms ups"
      "set ms \<subseteq> set (filter is_enabled members)" "distinct (map m_id ms)"
    unfolding requested_def by blast
  have "length ups = card (m_id ` set ms)"
    using list_all2_lengthD [OF m(2)] distinct_card [OF m(4)] by simp
  also have "\<dots> \<le> card (m_id ` set (filter is_enabled members))"
    by (rule card_mono [OF finite_imageI [OF finite_set] image_mono [OF m(3)]])
  finally show ?thesis using m by blast
qed

text \<open>An outside world that records the requests.\<close>

definition recording_handler :: "up_request list handler" where
  "recording_handler = (demo_handler None)\<lparr>h_do := \<lambda>up w. (fst (demo_do up w), w @ [up])\<rparr>"

theorem serve_http_requests_each_once_witness:
  "map up_url (rt_world (snd (serve_http recording_handler demo_request (start_state [])))) = [''https://a/v1'', ''https://b/v1'']
   \<and> (\<exists>ms. length ms = 2 \<and> set ms \<subseteq> {demo_member ''a'', demo_member ''b''} \<and> distinct (map m_id ms))"
proof -
  let ?r = "serve_http recording_handler demo_request (start_state [])"
  have urls: "map up_url (rt_world (snd ?r)) = [''https://a/v1'', ''https://b/v1'']" by code_simp
  have obs: "observes recording_handler (\<lambda>w. w)"
    by (simp add: observes_def recording_handler_def demo_handler_def new_handler_def demo_conn_def)
  have members: "[demo_member ''a'', demo_member ''b''] = (case h_active recording_handler of None \<Rightarrow> [] | Some p \<Rightarrow> p_members p)"
    by (simp add: recording_handler_def demo_handler_def new_handler_def)
  obtain ms ups where "rt_world (snd ?r) = rt_world (start_state []) @ ups"
    "list_all2 (\<lambda>m up. \<exists>getenv read_file. build_request getenv read_file demo_request (sent_body demo_request) m = Some up) ms ups"
    "set ms \<subseteq> set (filter is_enabled [demo_member ''a'', demo_member ''b''])" "distinct (map m_id ms)"
    using serve_http_requests_each_once [OF obs prod.collapse [symmetric] members] by blast
  moreover from this have "length ms = 2"
    using arg_cong [OF urls, of length] by (simp add: start_state_def list_all2_lengthD)
  moreover have "set (filter is_enabled [demo_member ''a'', demo_member ''b'']) \<subseteq> {demo_member ''a'', demo_member ''b''}"
    by auto
  ultimately have "length ms = 2 \<and> set ms \<subseteq> {demo_member ''a'', demo_member ''b''} \<and> distinct (map m_id ms)"
    by (meson subset_trans)
  with urls show ?thesis by blast
qed

lemma router_pick_open_error:
  assumes "router_pick None intn members session b w = (PickErr e, w')" and "m \<in> set members"
  shows "\<not> is_enabled m"
proof
  assume "is_enabled m"
  with assms(2) have ne: "members \<noteq> []" "filter is_enabled members \<noteq> []"
    by (auto simp: filter_empty_conv)
  then show False
    using assms(1)
    by (auto simp: router_pick_def healthy_members_def filter_healthy_def weighted_choice_def
        random_pick_def Let_def split: if_splits prod.splits)
qed

lemma loop_tries_all:
  assumes "serve_loop h rq name body members 0 [] None st = ((Exhausted l, tried), st')"
    and open_store: "h_store h = None"
  shows "set tried = m_id ` set (filter is_enabled members)"
proof -
  let ?ids = "m_id ` set (filter is_enabled members)"
  have "Exhausted l = Exhausted bf \<longrightarrow> set tried = ?ids" for bf
  proof (rule serve_loop_rule [OF assms(1), where I = "\<lambda>a t l s. distinct t \<and> length t = a \<and> set t \<subseteq> ?ids"])
    show "distinct (t @ [m_id m]) \<and> length (t @ [m_id m]) = Suc b \<and> set (t @ [m_id m]) \<subseteq> ?ids"
      if "distinct t \<and> length t = b \<and> set t \<subseteq> ?ids"
        "serve_step h rq name body members b t k s = (Again m bf, s')" for b t k s m bf s'
      using that(2) by (cases rule: serve_step_cases) (use that(1) in auto)
    show "r = Exhausted bf \<longrightarrow> set t' = ?ids"
      if "distinct t \<and> length t = b \<and> set t \<subseteq> ?ids"
        "serve_step h rq name body members b t k s = (Stop r t', s')" for b t k s r t' s'
      using that(2)
    proof (cases rule: serve_step_cases)
      case (stop res)
      have "?ids \<subseteq> set t" if "res = Exhausted bf"
      proof -
        have "\<not> is_enabled m" if "m \<in> set (filter_not_tried members t)" for m
          using stop(3) that \<open>res = Exhausted bf\<close> router_pick_open_error open_store by fastforce
        then show ?thesis by (auto simp: filter_not_tried_def)
      qed
      with stop that(1) show ?thesis by auto
    qed auto
    show "Exhausted k = Exhausted bf \<longrightarrow> set t = ?ids"
      if "distinct t \<and> length t = b \<and> set t \<subseteq> ?ids" "length members \<le> b" for b t k
      using that tried_full [of t members] by simp
  qed simp
  then show ?thesis by simp
qed

text \<open>Without Redis, the handler gives up only after every enabled member has been tried.\<close>

theorem exhausted_tried_all:
  assumes "serve_loop h rq name body members 0 [] None st = ((Exhausted l, tried), st')"
    and open_store: "h_store h = None"
  shows "set tried = m_id ` set (filter is_enabled members)"
  using assms by (rule loop_tries_all)

theorem exhausted_tried_all_witness:
  "set [''a'', ''c''] = m_id ` set (filter is_enabled [demo_member ''a'', demo_member ''c''])"
proof -
  let ?r = "serve_loop (demo_handler None) demo_request ''alice'' [] [demo_member ''a'', demo_member ''c'']
       0 [] None (start_state ())"
  have t: "fst ?r = (Exhausted (Some bad_gateway), [''a'', ''c''])" by code_simp
  have "?r = ((Exhausted (Some bad_gateway), [''a'', ''c'']), snd ?r)"
    by (simp only: prod_eq_iff fst_conv snd_conv t)
  from exhausted_tried_all [OF this] show ?thesis
    by (simp add: demo_handler_def new_handler_def)
qed

section \<open>Transparency\<close>

text \<open>A caller that takes every byte.\<close>

definition accepts :: "'w conn \<Rightarrow> bool" where
  "accepts conn \<longleftrightarrow> (\<forall>b w. fst (conn b w) = (length b, True))"

lemma accepts_write:
  "accepts conn \<Longrightarrow> write_body conn b st = (ok, st') \<Longrightarrow> ok \<and> rt_out st' = rt_out st @ [WBody b]"
  by (auto simp: accepts_def write_body_def emit_def split: prod.splits) (metis fst_conv order.refl prod.inject take_all)+

lemma copy_stream_full:
  assumes "accepts conn" and "copy_stream conn chunks ob st = (ob', st')"
  shows "ob' = fold observer_write (filter (\<lambda>c. c \<noteq> []) chunks) ob
    \<and> (\<exists>bs. rt_out st' = rt_out st @ bs \<and> list_all body_event bs \<and> body_of bs = concat chunks)"
  using assms(2)
proof (induction chunks arbitrary: ob st)
  case Nil
  then show ?case by (auto intro: exI [of _ "[]"])
next
  case (Cons chunk chunks)
  show ?case
  proof (cases "chunk = []")
    case True
    with Cons show ?thesis by simp
  next
    case False
    obtain ok st1 where w: "write_body conn chunk st = (ok, st1)" by force
    from accepts_write [OF assms(1) this] have ok: "ok" "rt_out st1 = rt_out st @ [WBody chunk]" by simp_all
    with Cons.prems False w
    have rec: "copy_stream conn chunks (observer_write chunk ob) (emit [WFlush] st1) = (ob', st')"
      by simp
    from Cons.IH [OF this] obtain bs where
      "ob' = fold observer_write (filter (\<lambda>c. c \<noteq> []) chunks) (observer_write chunk ob)"
      "rt_out st' = rt_out (emit [WFlush] st1) @ bs" "list_all body_event bs" "body_of bs = concat chunks"
      by blast
    with False ok show ?thesis by (auto intro!: exI [of _ "WBody chunk # WFlush # bs"])
  qed
qed

lemma deliver_adds:
  "rs_header (fold deliver_event (concat (map (\<lambda>(k, vs). map (HAdd k) vs) h)) r) =
     hdr.add_all h (rs_header r)"
proof (induction h arbitrary: r)
  case Nil
  then show ?case by (simp add: hdr.add_all_def)
next
  case (Cons kv h)
  obtain k vs where [simp]: "kv = (k, vs)" by force
  have "rs_header (fold deliver_event (map (HAdd k) vs) r) = foldl (\<lambda>h v. hadd h k v) (rs_header r) vs"
    by (induction vs arbitrary: r) simp_all
  with Cons.IH show ?case by (simp add: hdr.add_all_def)
qed

lemma finish_full:
  assumes "accepts (h_conn h)" and "wf_header hdrs" and "200 \<le> status" and "status \<le> 999"
    and "finish h name m session status hdrs body st = (res, st')"
  shows "res = Served \<and> (\<exists>es hd. rt_out st' = rt_out st @ es \<and> answers es
    \<and> rs_sent (deliver es) = Some (status, hd) \<and> (\<forall>k. hvalues hd k = hvalues hdrs k)
    \<and> rs_body (deliver es) = read_all body)"
proof -
  let ?st1 = "pin_session h session m st"
  let ?hs = "concat (map (\<lambda>(k, vs). map (HAdd k) vs) hdrs)"
  obtain ob st3 where cs: "copy_stream (h_conn h) (rd_chunks body)
      (new_usage_observer (hget hdrs ''Content-Type''))
      (emit [WStatus status] (write_headers hdrs ?st1)) = (ob, st3)" by force
  obtain bs where bs: "rt_out st3 = rt_out st @ ?hs @ WStatus status # bs" "list_all body_event bs"
      "body_of bs = concat (rd_chunks body)"
    using copy_stream_full [OF assms(1) cs] by (auto simp: write_headers_def pin_session_def)
  have "res = Served" "rt_out st' = rt_out st3"
    using assms(3,4,5) cs by (auto simp: finish_def Let_def valid_status_def)
  moreover note d = deliver_answer [OF list_all_header_adds [of hdrs] bs(2), of status]
  moreover have "answers (?hs @ WStatus status # bs)"
    by (rule answersI [OF list_all_header_adds bs(2)])
  moreover have "hvalues (rs_header (fold deliver_event ?hs no_response)) k = hvalues hdrs k" for k
    by (simp add: deliver_adds no_response_def add_all_values [OF assms(2)])
  ultimately show ?thesis
    using bs assms(3) by (auto simp: read_all_def)
qed

lemma try_response_relays:
  assumes conn: "accepts (h_conn h)" and hdrs: "wf_header (rp_header rp)"
    and status: "200 \<le> rp_status rp" "rp_status rp \<le> 999"
    and keep: "\<not> fst (should_failover (rp_status rp) (read_all (rp_body rp)) (rp_header rp))"
    and step: "try_response h name session m rp st = (res, st')"
  shows "res = Inr Served \<and> (\<exists>es hd. rt_out st' = rt_out st @ es \<and> answers es
    \<and> rs_sent (deliver es) = Some (rp_status rp, hd) \<and> (\<forall>k. hvalues hd k = hvalues (rp_header rp) k)
    \<and> rs_body (deliver es) = read_all (rp_body rp))"
  using step
proof (cases rule: try_response_runs)
  case (failed ttl reason)
  with keep show ?thesis by simp
next
  case (final r body)
  then show ?thesis using finish_full [OF conn hdrs status final(4)] by simp
qed

text \<open>Property C7: The proxy is transparent. A response that does not fail over, whether it was streamed
  or had to be buffered for the decision, reaches a caller that reads it with the upstream's status,
  the upstream's headers and the upstream's body, byte for byte.\<close>

theorem response_transparent:
  assumes conn: "accepts (h_conn h)" and hdrs: "wf_header (rp_header rp)"
    and status: "200 \<le> rp_status rp" "rp_status rp \<le> 999"
    and keep: "\<not> fst (should_failover (rp_status rp) (read_all (rp_body rp)) (rp_header rp))"
    and step: "try_response h name session m rp st = (res, st')"
  shows "res = Inr Served \<and> (\<exists>es hd. rt_out st' = rt_out st @ es \<and> answers es
    \<and> rs_sent (deliver es) = Some (rp_status rp, hd) \<and> (\<forall>k. hvalues hd k = hvalues (rp_header rp) k)
    \<and> rs_body (deliver es) = read_all (rp_body rp))"
  using assms by (rule try_response_relays)

definition demo_response :: up_response where
  "demo_response = \<lparr>rp_status = 429, rp_header = [(''X-Id'', [''7''])],
     rp_body = \<lparr>rd_chunks = [''be'', ''fore''], rd_fails = True\<rparr>\<rparr>"

theorem response_transparent_witness:
  "\<exists>es hd. rt_out (snd (try_response (demo_handler None) ''alice'' [] (demo_member ''a'') demo_response
       (start_state ()))) = es
     \<and> rs_sent (deliver es) = Some (429, hd) \<and> hvalues hd ''X-Id'' = [''7'']
     \<and> rs_body (deliver es) = ''before''"
proof -
  let ?r = "try_response (demo_handler None) ''alice'' [] (demo_member ''a'') demo_response (start_state ())"
  have "accepts (h_conn (demo_handler (None :: unit store)))"
    by (simp add: accepts_def demo_handler_def new_handler_def demo_conn_def)
  moreover have "canon ''X-Id'' = ''X-Id''" by code_simp
  then have "wf_header (rp_header demo_response)" by (simp add: demo_response_def wf_header_def)
  moreover have "\<not> fst (should_failover (rp_status demo_response) (read_all (rp_body demo_response))
      (rp_header demo_response))" by code_simp
  ultimately have "fst ?r = Inr Served \<and> (\<exists>es hd. rt_out (snd ?r) = rt_out (start_state ()) @ es
      \<and> answers es \<and> rs_sent (deliver es) = Some (rp_status demo_response, hd)
      \<and> (\<forall>k. hvalues hd k = hvalues (rp_header demo_response) k)
      \<and> rs_body (deliver es) = read_all (rp_body demo_response))"
    by (intro response_transparent [where h = "demo_handler None"])
      (simp_all add: demo_response_def)
  moreover have "hvalues (rp_header demo_response) ''X-Id'' = [''7'']"
    "read_all (rp_body demo_response) = ''before''" by code_simp+
  ultimately show ?thesis by (auto simp: start_state_def demo_response_def)
qed

section \<open>Cooldown\<close>

lemma cooldown_seconds_pos: "0 < cooldown_seconds m t"
  by (simp add: cooldown_seconds_def Let_def)

lemma seconds_pos: "0 < n \<Longrightarrow> n \<le> 9223372036 \<Longrightarrow> 0 < seconds n"
  by (simp add: seconds_def second_def int64_def)

lemma apfst_Inr_Inl [simp]: "apfst Inr p \<noteq> (Inl a, b)"
  by (cases p) simp

text \<open>A duration above 292 years wraps to a negative one: the \<open>Retry-After\<close> of a single
  response makes the handler ask Redis for a key that does not expire as intended.\<close>

theorem retry_after_overflow:
  "should_failover 200 [] [(''Retry-After'', [''9223372037''])] = (True, 9223372037, ''retry-after'')
   \<and> seconds (cooldown_seconds m (cooldown_ttl 9223372037 (m_cooldown_sec m) a)) < 0"
proof
  show "should_failover 200 [] [(''Retry-After'', [''9223372037''])] = (True, 9223372037, ''retry-after'')"
    by code_simp
  show "seconds (cooldown_seconds m (cooldown_ttl 9223372037 (m_cooldown_sec m) a)) < 0"
    by (simp add: cooldown_ttl_def cooldown_seconds_def seconds_def second_def wrap64_def)
qed

section \<open>Affinity modes\<close>

text \<open>The sticky modes \<open>none\<close> and \<open>lb\<close> are one mode: the handler only distinguishes
  \<open>redis\<close> from everything else, and the router hashes the session in both.\<close>

theorem sticky_none_is_lb:
  "serve_http (h\<lparr>h_sticky_mode := ''none''\<rparr>) rq st = serve_http (h\<lparr>h_sticky_mode := ''lb''\<rparr>) rq st"
proof -
  let ?n = "h\<lparr>h_sticky_mode := ''none''\<rparr>" and ?l = "h\<lparr>h_sticky_mode := ''lb''\<rparr>"
  have p: "pin_session ?n = pin_session ?l" by (simp add: fun_eq_iff pin_session_def)
  have conn: "h_conn ?n = h_conn ?l" "h_store ?n = h_store ?l" "h_intn ?n = h_intn ?l"
    "h_do ?n = h_do ?l" "h_getenv ?n = h_getenv ?l" "h_read_file ?n = h_read_file ?l" by simp_all
  have f: "finish ?n = finish ?l" by (intro ext, unfold finish_def p conn, rule refl)
  have c: "cooldown ?n = cooldown ?l" by (intro ext, unfold cooldown_def conn, rule refl)
  have t: "try_response ?n = try_response ?l" by (intro ext, unfold try_response_def f c, rule refl)
  have n: "note_sticky ?n = note_sticky ?l" by (intro ext, unfold note_sticky_def conn, rule refl)
  have r: "transport_failure ?n = transport_failure ?l"
    by (intro ext, unfold transport_failure_def c, rule refl)
  have d: "send ?n = send ?l" by (intro ext, unfold send_def conn, rule refl)
  have m: "(h_sticky_mode ?n = ''redis'') = (h_sticky_mode ?l = ''redis'')" by simp
  have s: "serve_step ?n = serve_step ?l"
    by (intro ext, unfold serve_step_def t n r d m conn, rule refl)
  have eq: "serve_loop ?n rq' name body ms a tried l s = serve_loop ?l rq' name body ms a tried l s"
    for rq' name body ms a tried l s
  proof (induction "length ms - a" arbitrary: a tried l s)
    case 0
    then show ?case by (simp add: serve_loop.simps [of _ _ _ _ _ a])
  next
    case (Suc n)
    then have "serve_loop ?n rq' name body ms (Suc a) tr bf st1 = serve_loop ?l rq' name body ms (Suc a) tr bf st1"
      for tr bf st1 by simp
    then show ?case by (simp add: serve_loop.simps [of _ _ _ _ _ a] s split: prod.splits step_result.splits)
  qed
  have e: "answer_failure ?n = answer_failure ?l"
    by (intro ext, unfold answer_failure_def conn, rule refl)
  then have loop: "serve_loop ?n = serve_loop ?l" by (intro ext) (rule eq)
  have a: "h_active ?n = h_active ?l" by simp
  show ?thesis unfolding serve_http_def loop e conn a ..
qed

end
