(* ===== verification/Watcher.thy ===== *)
theory Watcher
  imports Proem_Prelude
begin

text \<open>
  What the two configuration loaders share: the inputs their watch goroutine selects over, the
  state it updates, and the contract \<open>watched_config\<close> under which a published configuration
  stays good whatever happens to the file. The contract is interpreted on the pool loader in
  Pool_Loader and on the client loader in Client_Loader.

  \<open>fsnotify\<close> is a parameter: an input carries the operations of the event and what reading the
  file returns at that moment (\<open>None\<close> for a read error).
\<close>

datatype fs_op = Create | Write | Remove | Rename | Chmod

datatype watch_input =
    DoneClosed                              \<comment> \<open>the done channel\<close>
  | FsEvent "fs_op set" "bytes option"      \<comment> \<open>an event, and the file's content when it is handled\<close>
  | EventsClosed
  | FsError bytes
  | ErrorsClosed

instantiation fs_op :: enum
begin

definition "enum_fs_op = [Create, Write, Remove, Rename, Chmod]"
definition "enum_all_fs_op P \<longleftrightarrow> P Create \<and> P Write \<and> P Remove \<and> P Rename \<and> P Chmod"
definition "enum_ex_fs_op P \<longleftrightarrow> P Create \<or> P Write \<or> P Remove \<or> P Rename \<or> P Chmod"

instance
proof
  have univ: "(UNIV :: fs_op set) = {Create, Write, Remove, Rename, Chmod}" using fs_op.exhaust by blast
  show "UNIV = set (enum_class.enum :: fs_op list)" "distinct (enum_class.enum :: fs_op list)"
    by (simp_all add: univ enum_fs_op_def)
  show "enum_class.enum_all P \<longleftrightarrow> Ball UNIV P" for P :: "fs_op \<Rightarrow> bool"
    by (simp add: univ enum_all_fs_op_def)
  show "enum_class.enum_ex P \<longleftrightarrow> Bex UNIV P" for P :: "fs_op \<Rightarrow> bool"
    by (simp add: univ enum_ex_fs_op_def)
qed

end

text \<open>\<open>ev.Op & (Write|Create|Rename) != 0\<close>.\<close>

definition wants_reload :: "fs_op set \<Rightarrow> bool" where
  "wants_reload ops \<longleftrightarrow> ops \<inter> {Write, Create, Rename} \<noteq> {}"

text \<open>A removal or a change of permissions alone is not followed.\<close>

lemma wants_reload_iff: "wants_reload ops \<longleftrightarrow> (\<exists>x \<in> ops. x \<noteq> Remove \<and> x \<noteq> Chmod)"
  unfolding wants_reload_def by (auto, metis fs_op.exhaust)

datatype 'e report = ReloadFailed 'e | WatchFailed bytes

record 'a loader =
  ld_path :: bytes
  ld_active :: "'a option"             \<comment> \<open>the atomic pointer; \<open>None\<close> is nil\<close>
  ld_watched :: "bytes list option"    \<comment> \<open>the watcher and the paths added to it; \<open>None\<close> is nil\<close>

record ('a, 'e) watch_state =
  ws_loader :: "'a loader"
  ws_running :: bool
  ws_reports :: "'e report list"       \<comment> \<open>calls of \<open>onError\<close>, oldest first\<close>

inductive reached :: "('i \<Rightarrow> 's \<Rightarrow> 's) \<Rightarrow> 's \<Rightarrow> 's \<Rightarrow> bool" for step where
  here: "reached step s s"
| next_input: "reached step s t \<Longrightarrow> reached step s (step i t)"

lemma reached_fold: "reached step s (fold step is s)"
proof (induction "is" rule: rev_induct)
  case Nil
  then show ?case by (simp add: reached.here)
next
  case (snoc i "is")
  then show ?case by (simp add: reached.next_input)
qed

locale watched_config =
  fixes step :: "'i \<Rightarrow> 's \<Rightarrow> 's"
    and active :: "'s \<Rightarrow> 'a option"
    and good :: "'a \<Rightarrow> bool"
    and running :: "'s \<Rightarrow> bool"
  assumes step_publishes_good:
      "active (step i s) \<noteq> active s \<Longrightarrow> \<exists>a. active (step i s) = Some a \<and> good a"
    and stopped_is_final: "\<not> running s \<Longrightarrow> step i s = s"
begin

definition serving :: "'s \<Rightarrow> bool" where
  "serving s \<longleftrightarrow> (\<exists>a. active s = Some a \<and> good a)"

lemma step_serving: "serving s \<Longrightarrow> serving (step i s)"
  using step_publishes_good [of i s] unfolding serving_def by (cases "active (step i s) = active s") auto

lemma reached_serving: "reached step s t \<Longrightarrow> serving s \<Longrightarrow> serving t"
  by (induction rule: reached.induct) (auto intro: step_serving)

lemma reached_stopped: "reached step s t \<Longrightarrow> \<not> running s \<Longrightarrow> t = s"
  by (induction rule: reached.induct) (auto simp: stopped_is_final)

end

end
