(* ===== verification/Client_Loader.thy ===== *)
theory Client_Loader
  imports Client Watcher
begin

text \<open>
  \<open>internal/client/loader.go\<close>: the registry's loader and its watch loop, the second provider of the
  contract \<open>watched_config\<close>. Unlike the pool's loader, it fails to start when the file cannot be
  watched.
\<close>

datatype client_load_error = ClientReadError | ClientParseError | InvalidRegistry client_error

text \<open>\<open>LoadFile\<close>: \<open>content\<close> is what \<open>os.ReadFile\<close> returns, \<open>unmarshal\<close> is \<open>yaml.Unmarshal\<close> into
  a fresh \<open>Registry\<close>, giving its clients (the index is an unexported field).\<close>

definition load_registry ::
  "(bytes \<Rightarrow> client list option) \<Rightarrow> bytes option \<Rightarrow> (client_load_error, registry) outcome" where
  "load_registry unmarshal content =
     (case content of
        None \<Rightarrow> Inl ClientReadError
      | Some b \<Rightarrow>
          (case unmarshal b of
             None \<Rightarrow> Inl ClientParseError
           | Some cs \<Rightarrow>
               (case validate_registry \<lparr>r_clients = cs, r_by_hash = None\<rparr> of
                  Inl e \<Rightarrow> Inl (InvalidRegistry e)
                | Inr r \<Rightarrow> Inr r)))"

definition client_reload ::
  "(bytes \<Rightarrow> client list option) \<Rightarrow> bytes option \<Rightarrow> registry loader
     \<Rightarrow> registry loader \<times> client_load_error option" where
  "client_reload unmarshal content l =
     (case load_registry unmarshal content of
        Inl e \<Rightarrow> (l, Some e)
      | Inr r \<Rightarrow> (l\<lparr>ld_active := Some r\<rparr>, None))"

datatype client_new_error = ClientLoadFailed client_load_error | ClientWatcherFailed | ClientAddFailed

definition client_new_loader ::
  "(bytes \<Rightarrow> client list option) \<Rightarrow> bytes option \<Rightarrow> bool \<Rightarrow> (bytes \<Rightarrow> bool) \<Rightarrow> bytes \<Rightarrow>
     (client_new_error, registry loader) outcome" where
  "client_new_loader unmarshal content watcher_ok add_ok path =
     (let l = \<lparr>ld_path = path, ld_active = None, ld_watched = None\<rparr> in
      case client_reload unmarshal content l of
        (_, Some e) \<Rightarrow> Inl (ClientLoadFailed e)
      | (l, None) \<Rightarrow>
          if \<not> watcher_ok then Inl ClientWatcherFailed
          else if \<not> add_ok path then Inl ClientAddFailed
          else Inr (l\<lparr>ld_watched := Some [path]\<rparr>))"

definition client_watch_step ::
  "(bytes \<Rightarrow> client list option) \<Rightarrow> bool \<Rightarrow> watch_input \<Rightarrow>
     (registry, client_load_error) watch_state \<Rightarrow> (registry, client_load_error) watch_state" where
  "client_watch_step unmarshal has_cb inp s =
     (if \<not> ws_running s then s
      else case inp of
        DoneClosed \<Rightarrow> s\<lparr>ws_running := False\<rparr>
      | EventsClosed \<Rightarrow> s\<lparr>ws_running := False\<rparr>
      | ErrorsClosed \<Rightarrow> s\<lparr>ws_running := False\<rparr>
      | FsEvent ops content \<Rightarrow>
          (if wants_reload ops then
             (case client_reload unmarshal content (ws_loader s) of
                (l, None) \<Rightarrow> s\<lparr>ws_loader := l\<rparr>
              | (l, Some e) \<Rightarrow>
                  if has_cb then s\<lparr>ws_loader := l, ws_reports := ws_reports s @ [ReloadFailed e]\<rparr>
                  else s\<lparr>ws_loader := l\<rparr>)
           else s)
      | FsError e \<Rightarrow>
          (if has_cb then s\<lparr>ws_reports := ws_reports s @ [WatchFailed e]\<rparr> else s))"

definition client_watch :: "registry loader \<Rightarrow> (registry, client_load_error) watch_state" where
  "client_watch l = \<lparr>ws_loader = l, ws_running = (ld_watched l \<noteq> None), ws_reports = []\<rparr>"

definition client_active :: "(registry, client_load_error) watch_state \<Rightarrow> registry option" where
  "client_active s = ld_active (ws_loader s)"

definition client_close :: "bool \<Rightarrow> registry loader \<Rightarrow> bool" where
  "client_close watcher_closes l = (if ld_watched l \<noteq> None then watcher_closes else True)"

text \<open>A registry ready for lookups: valid, and with the index of its own clients.\<close>

definition indexed_ok :: "registry \<Rightarrow> bool" where
  "indexed_ok r \<longleftrightarrow> registry_ok r \<and> r_by_hash r = Some (find_by_digest (r_clients r))"

lemma registry_ok_by_hash [simp]: "registry_ok (r\<lparr>r_by_hash := m\<rparr>) = registry_ok r"
  by (simp add: registry_ok_def)

lemma load_registry_ok: "load_registry u content = Inr r \<Longrightarrow> indexed_ok r"
  by (auto simp: load_registry_def indexed_ok_def validate_registry_Inr registry_ok_def
      split: option.splits sum.splits)

lemmas client_loader_defs = client_watch_step_def client_reload_def client_active_def client_watch_def

interpretation client_cfg: watched_config "client_watch_step u cb" client_active indexed_ok ws_running
  for u cb
  by unfold_locales
    (auto simp: client_loader_defs dest: load_registry_ok
       split: watch_input.splits sum.splits option.splits if_splits)

lemma client_new_loader_serving:
  "client_new_loader u content w add path = Inr l \<Longrightarrow> client_cfg.serving (client_watch l)"
  by (auto simp: client_new_loader_def client_loader_defs client_cfg.serving_def Let_def
      dest: load_registry_ok split: sum.splits if_splits)

text \<open>An event whose file does not load, and every input that is no such event.\<close>

definition loads_nothing :: "(bytes \<Rightarrow> client list option) \<Rightarrow> watch_input \<Rightarrow> bool" where
  "loads_nothing u inp \<longleftrightarrow> (\<forall>ops b cs. inp = FsEvent ops (Some b) \<longrightarrow> wants_reload ops \<longrightarrow> u b = Some cs \<longrightarrow>
     \<not> registry_ok \<lparr>r_clients = cs, r_by_hash = None\<rparr>)"

lemma load_registry_Inr:
  "load_registry u content = Inr r \<longleftrightarrow>
     (\<exists>b cs. content = Some b \<and> u b = Some cs \<and> validate_registry \<lparr>r_clients = cs, r_by_hash = None\<rparr> = Inr r)"
  by (auto simp: load_registry_def split: option.splits sum.splits)

lemma loads_nothing_step:
  "loads_nothing u inp \<Longrightarrow> client_active (client_watch_step u cb inp s) = client_active s"
  by (auto simp: client_loader_defs loads_nothing_def load_registry_Inr validate_registry_Some [symmetric]
      split: watch_input.splits sum.splits)

lemma loads_nothing_fold:
  "list_all (loads_nothing u) is \<Longrightarrow> client_active (fold (client_watch_step u cb) is s) = client_active s"
  by (induction "is" arbitrary: s) (simp_all add: loads_nothing_step)

lemma watching_fold:
  "set is \<inter> {DoneClosed, EventsClosed, ErrorsClosed} = {} \<Longrightarrow>
     ws_running (fold (client_watch_step u cb) is s) = ws_running s"
proof (induction "is" arbitrary: s)
  case (Cons i "is")
  then have "ws_running (client_watch_step u cb i s) = ws_running s"
    by (cases i) (auto simp: client_watch_step_def split: prod.splits option.splits)
  with Cons show ?case by simp
qed simp


definition example_clients_unmarshal :: "bytes \<Rightarrow> client list option" where
  "example_clients_unmarshal b = (if b = ''ok'' then Some [example_client] else None)"

definition example_client_loader :: "registry loader" where
  "example_client_loader =
     \<lparr>ld_path = ''clients.yaml'',
      ld_active = Some (example_registry\<lparr>r_by_hash := Some (find_by_digest [example_client])\<rparr>),
      ld_watched = Some [''clients.yaml'']\<rparr>"

lemma example_client_new_loader:
  "client_new_loader example_clients_unmarshal (Some ''ok'') True (\<lambda>_. True) ''clients.yaml''
     = Inr example_client_loader"
  using example_registry_valid
  by (simp add: client_new_loader_def client_reload_def load_registry_def
      example_clients_unmarshal_def example_client_loader_def example_registry_def)


end
