(* ===== verification/Auth.thy ===== *)
theory Auth
  imports Handler_Correct Client_Loader Go_Json
begin

text \<open>
  \<open>internal/proxy/auth.go\<close>: authentication in front of the handler. The next handler is an argument;
  the request it gets has the caller's credential removed and the client's name in its context.
  The second half follows a request on to the upstream request \<open>send\<close> builds from it: the only
  credential it carries is the pool member's.
\<close>

section \<open>Credentials in a request\<close>

text \<open>\<open>cutBearer\<close>; \<open>None\<close> when the value is not a bearer.\<close>

definition cut_bearer :: "bytes \<Rightarrow> bytes option" where
  "cut_bearer v =
     (let trimmed = trim_space v; prefix = ''bearer '' in
      if length trimmed < length prefix \<or> \<not> equal_fold (take (length prefix) trimmed) prefix then None
      else Some (trim_space (drop (length prefix) trimmed)))"

definition presented_token :: "header \<Rightarrow> bytes" where
  "presented_token h =
     (let v = hget h ''Authorization'' in
      case (if v \<noteq> [] then cut_bearer v else None) of
        Some rest \<Rightarrow> rest
      | None \<Rightarrow> trim_space (hget h ''x-api-key''))"

definition strip_client_credentials :: "header \<Rightarrow> header" where
  "strip_client_credentials h = hdel (hdel h ''Authorization'') ''x-api-key''"

definition token_fingerprint :: "bytes \<Rightarrow> bytes" where
  "token_fingerprint token = take 12 (hash_token token)"

section \<open>The middleware\<close>

text \<open>\<open>writeAuthError\<close>: \<open>json.Encoder\<close> prints a map with its keys sorted and ends with a newline.\<close>

definition auth_error_body :: "bytes \<Rightarrow> bytes \<Rightarrow> bytes" where
  "auth_error_body err_type message =
     ''{'' @ json_string ''error'' @ '':{'' @ json_string ''message'' @ '':'' @ json_string message
     @ '','' @ json_string ''type'' @ '':'' @ json_string err_type @ ''},''
     @ json_string ''type'' @ '':'' @ json_string ''error'' @ ''}'' @ nl"

definition write_auth_error :: "'w conn \<Rightarrow> int \<Rightarrow> bytes \<Rightarrow> bytes \<Rightarrow> 'w rstate \<Rightarrow> 'w rstate" where
  "write_auth_error conn status err_type message st =
     snd (write_body conn (auth_error_body err_type message)
       (emit [HSet ''Content-Type'' ''application/json'', WStatus status] st))"

definition scope_ip :: "'w rstate \<Rightarrow> bytes" where
  "scope_ip st = (case rt_scope st of Some s \<Rightarrow> sc_ip s | None \<Rightarrow> [])"

definition reject ::
  "'w conn \<Rightarrow> request \<Rightarrow> int \<Rightarrow> bytes \<Rightarrow> bytes \<Rightarrow> bytes \<Rightarrow> (bytes \<times> bytes) list \<Rightarrow> 'w rstate \<Rightarrow> 'w rstate" where
  "reject conn rq status reason err_type message attrs st =
     write_auth_error conn status err_type message
       (log_line (AuthLine reason (scope_ip st) (rq_method rq) (rq_path rq)
            (hget (rq_header rq) ''User-Agent'') attrs)
         (count [AuthFailures reason] st))"

definition msg_missing :: bytes where
  "msg_missing =
     ''missing credentials: set CLAUDE_CODE_OAUTH_TOKEN to the token issued for this agent''"

definition msg_unknown :: bytes where
  "msg_unknown = ''invalid credentials: this token is not registered with the proxy''"

definition tag_scope :: "bytes \<Rightarrow> 'w rstate \<Rightarrow> 'w rstate" where
  "tag_scope name st = st\<lparr>rt_scope := map_option (\<lambda>s. s\<lparr>sc_client := name\<rparr>) (rt_scope st)\<rparr>"

definition with_client :: "bytes \<Rightarrow> request \<Rightarrow> request" where
  "with_client name rq = rq\<lparr>rq_client := Some name\<rparr>"

declare with_client_def [simp]

definition authenticated :: "request \<Rightarrow> bytes \<Rightarrow> request" where
  "authenticated rq name = with_client name (rq\<lparr>rq_header := strip_client_credentials (rq_header rq)\<rparr>)"

type_synonym 'w http_handler = "request \<Rightarrow> 'w rstate \<Rightarrow> bool \<times> 'w rstate"

definition auth :: "'w conn \<Rightarrow> registry option \<Rightarrow> 'w http_handler \<Rightarrow> 'w http_handler" where
  "auth conn active handler rq st =
     (let token = presented_token (rq_header rq) in
      if token = [] then
        (True, reject conn rq 401 ''missing_credentials'' ''authentication_error'' msg_missing [] st)
      else case registry_lookup active token of
        None \<Rightarrow>
          (True, reject conn rq 401 ''unknown_token'' ''authentication_error'' msg_unknown
             [(''token_fp'', token_fingerprint token)] st)
      | Some c \<Rightarrow>
          if \<not> client_enabled c then
            (True, reject conn rq 403 ''client_disabled'' ''permission_error''
               (''client '' @ c_name c @ '' is disabled'') [(''client'', c_name c)] st)
          else handler (authenticated rq (c_name c)) (tag_scope (c_name c) st))"

section \<open>Who gets through\<close>

lemma reject_answers:
  "\<exists>es n. rt_out (reject conn rq status reason ty msg attrs st) = rt_out st @ es \<and> answers es
     \<and> es = [HSet ''Content-Type'' ''application/json'', WStatus status,
             WBody (take n (auth_error_body ty msg))]
     \<and> rt_metrics (reject conn rq status reason ty msg attrs st) = rt_metrics st @ [AuthFailures reason]"
proof -
  let ?st = "emit [HSet ''Content-Type'' ''application/json'', WStatus status]
    (log_line (AuthLine reason (scope_ip st) (rq_method rq) (rq_path rq)
            (hget (rq_header rq) ''User-Agent'') attrs) (count [AuthFailures reason] st))"
  obtain ok st' where w: "write_body conn (auth_error_body ty msg) ?st = (ok, st')" by force
  obtain n where n: "rt_out st' = rt_out ?st @ [WBody (take n (auth_error_body ty msg))]"
    using write_body_out [OF w] by blast
  have "rt_metrics st' = rt_metrics ?st"
    using w by (auto simp: write_body_def emit_def split: prod.splits)
  moreover have "answers ([HSet ''Content-Type'' ''application/json''] @ WStatus status #
      [WBody (take n (auth_error_body ty msg))])"
    by (rule answersI) simp_all
  ultimately show ?thesis using w n
    by (intro exI [of _ n] exI) (simp add: reject_def write_auth_error_def)
qed

lemma indexed_lookup:
  assumes "indexed_ok r"
  shows "registry_lookup (Some r) token = Some c \<longleftrightarrow>
     token \<noteq> [] \<and> (\<exists>c0 \<in> set (r_clients r). digest_of c0 = hash_token token
                     \<and> c = c0\<lparr>c_token_sha256 := hash_token token\<rparr>)"
  using assms
  by (auto simp: registry_lookup_def indexed_ok_def registry_ok_def find_by_digest_def find_distinct)

text \<open>The callers the registry admits.\<close>

definition admits :: "registry \<Rightarrow> bytes \<Rightarrow> client \<Rightarrow> bool" where
  "admits r token c \<longleftrightarrow>
     token \<noteq> [] \<and> c \<in> set (r_clients r) \<and> digest_of c = hash_token token \<and> client_enabled c"

lemma auth_rejects:
  assumes ok: "\<And>r. active = Some r \<Longrightarrow> indexed_ok r"
    and none: "\<And>r c. active = Some r \<Longrightarrow> \<not> admits r (presented_token (rq_header rq)) c"
  obtains code reason ty msg attrs where "code \<in> {401, 403}"
    and "\<And>(handler :: 'w http_handler) st. auth conn active handler rq st
           = (True, reject conn rq code reason ty msg attrs st)"
proof -
  let ?token = "presented_token (rq_header rq)"
  have disabled: "\<not> client_enabled c" if l: "registry_lookup active ?token = Some c" for c
  proof -
    obtain r where r: "active = Some r" using l by (auto simp: registry_lookup_def split: option.splits)
    then obtain c0 where c0: "?token \<noteq> []" "c0 \<in> set (r_clients r)" "digest_of c0 = hash_token ?token"
        "c = c0\<lparr>c_token_sha256 := hash_token ?token\<rparr>"
      using l indexed_lookup [OF ok [OF r], of ?token c] by auto
    then have "\<not> client_enabled c0" using none [OF r, of c0] by (simp add: admits_def)
    with c0 show ?thesis by (simp add: client_enabled_def)
  qed
  show thesis
  proof (cases "?token = [] \<or> registry_lookup active ?token = None")
    case True
    then show thesis by (cases "?token = []") (auto simp: auth_def Let_def intro: that)
  next
    case False
    then obtain c where "registry_lookup active ?token = Some c" by blast
    with False disabled show thesis by (auto simp: auth_def Let_def intro: that)
  qed
qed

text \<open>Property C12: Authentication fails closed. A request that does not present the token of an enabled
  client of the active registry never reaches the handler behind, whatever that handler is: it is
  answered once, with 403 if its token is that of a disabled client and with 401 otherwise, and
  exactly that rejection is counted.\<close>

theorem auth_fails_closed:
  assumes ok: "indexed_ok r" and token: "token = presented_token (rq_header rq)"
    and none: "\<And>c. \<not> admits r token c"
    and known: "known \<longleftrightarrow> token \<noteq> [] \<and> (\<exists>c \<in> set (r_clients r). digest_of c = hash_token token)"
  shows "\<exists>st' es. (\<forall>handler. auth conn (Some r) handler rq st = (True, st'))
    \<and> rt_out st' = rt_out st @ es \<and> answers es \<and> WStatus (if known then 403 else 401) \<in> set es
    \<and> rt_metrics st' = rt_metrics st @ [AuthFailures (if token = [] then ''missing_credentials''
        else if known then ''client_disabled'' else ''unknown_token'')]"
proof -
  let ?code = "if known then 403 else 401 :: int"
  let ?reason = "if token = [] then ''missing_credentials'' else if known then ''client_disabled'' else ''unknown_token''"
  have "\<exists>ty msg attrs. \<forall>handler. auth conn (Some r) handler rq st = (True, reject conn rq ?code ?reason ty msg attrs st)"
  proof (cases "registry_lookup (Some r) token")
    case None
    with indexed_lookup [OF ok, of token] known have "\<not> known" by fastforce
    with None show ?thesis by (cases "token = []") (auto simp: auth_def token [symmetric])
  next
    case (Some c)
    then obtain c0 where "token \<noteq> []" "c0 \<in> set (r_clients r)" "digest_of c0 = hash_token token"
        "c = c0\<lparr>c_token_sha256 := hash_token token\<rparr>"
      using indexed_lookup [OF ok, of token c] by auto
    then have "known" "token \<noteq> []" "\<not> client_enabled c"
      using known none [of c0] by (auto simp: admits_def client_enabled_def)
    with Some show ?thesis by (auto simp: auth_def token [symmetric])
  qed
  then obtain ty msg attrs where
    a: "\<And>handler. auth conn (Some r) handler rq st = (True, reject conn rq ?code ?reason ty msg attrs st)" by blast
  obtain es n where "rt_out (reject conn rq ?code ?reason ty msg attrs st) = rt_out st @ es" "answers es"
      "es = [HSet ''Content-Type'' ''application/json'', WStatus ?code, WBody (take n (auth_error_body ty msg))]"
      "rt_metrics (reject conn rq ?code ?reason ty msg attrs st) = rt_metrics st @ [AuthFailures ?reason]"
    using reject_answers by blast
  with a show ?thesis by (intro exI conjI allI) auto
qed

lemma auth_passes:
  assumes "indexed_ok r" and "admits r (presented_token (rq_header rq)) c"
  shows "auth conn (Some r) handler rq st
       = handler (authenticated rq (c_name c)) (tag_scope (c_name c) st)
    \<and> hvalues (rq_header (authenticated rq (c_name c))) ''Authorization'' = []
    \<and> hvalues (rq_header (authenticated rq (c_name c))) ''x-api-key'' = []
    \<and> client_name (authenticated rq (c_name c)) = c_name c"
proof -
  let ?token = "presented_token (rq_header rq)"
  let ?c = "c\<lparr>c_token_sha256 := hash_token ?token\<rparr>"
  have l: "registry_lookup (Some r) ?token = Some ?c"
    using indexed_lookup [OF assms(1)] assms(2) by (auto simp: admits_def)
  have e: "client_enabled ?c" "?token \<noteq> []" using assms(2) by (simp_all add: admits_def client_enabled_def)
  have "client_ok c" using assms by (auto simp: admits_def indexed_ok_def registry_ok_def list_all_iff)
  then have "c_name c \<noteq> []" using name_pattern_nonempty by (auto simp: client_ok_def)
  with l e show ?thesis
    by (simp add: auth_def Let_def authenticated_def client_name_def strip_client_credentials_def
        hdr.vals_del)
qed

text \<open>The token of an enabled client reaches the handler behind, whatever the case of the
  digest in the registry, with that client's name in its context and its own credential headers
  gone.\<close>

theorem auth_admits:
  assumes "indexed_ok r" and "admits r (presented_token (rq_header rq)) c"
  shows "auth conn (Some r) handler rq st
       = handler (authenticated rq (c_name c)) (tag_scope (c_name c) st)
    \<and> hvalues (rq_header (authenticated rq (c_name c))) ''Authorization'' = []
    \<and> hvalues (rq_header (authenticated rq (c_name c))) ''x-api-key'' = []
    \<and> client_name (authenticated rq (c_name c)) = c_name c"
  using assms by (rule auth_passes)

definition demo_client :: client where
  "demo_client = \<lparr>c_name = ''maria'', c_token_sha256 = hash_token ''oat'', c_enabled = None\<rparr>"

definition demo_registry :: registry where
  "demo_registry = \<lparr>r_clients = [demo_client], r_by_hash = Some (find_by_digest [demo_client])\<rparr>"

lemma demo_registry_indexed: "indexed_ok demo_registry"
proof -
  have "name_pattern ''maria''" by code_simp
  then show ?thesis
    by (simp add: indexed_ok_def registry_ok_def demo_registry_def client_ok_def demo_client_def
        digest_of_def hash_token_pattern)
qed

definition auth_request :: request where
  "auth_request = demo_request\<lparr>rq_header := [(''Authorization'', [''bearer oat'']),
     (''X-Api-Key'', [''sk''])]\<rparr>"

definition beta_request :: request where
  "beta_request = demo_request\<lparr>rq_header := [(''Authorization'', [''bearer t'']),
     (''Anthropic-Beta'', [''a'', ''b'']), (''X-Api-Key'', [''sk''])]\<rparr>"

lemma demo_admits: "admits demo_registry (presented_token (rq_header auth_request)) demo_client"
proof -
  have "presented_token (rq_header auth_request) = ''oat''" by code_simp
  then show ?thesis
    by (simp add: admits_def demo_registry_def demo_client_def digest_of_def client_enabled_def)
qed

theorem auth_admits_witness:
  "\<forall>handler st. auth demo_conn (Some demo_registry) handler auth_request st
     = handler (authenticated auth_request ''maria'') (tag_scope ''maria'' st)"
proof -
  have "c_name demo_client = ''maria''" by (simp add: demo_client_def)
  with auth_admits [OF demo_registry_indexed demo_admits, THEN conjunct1] show ?thesis by metis
qed

text \<open>The same registry with its only client disabled, and the same request.\<close>

definition closed_registry :: registry where
  "closed_registry = \<lparr>r_clients = [demo_client\<lparr>c_enabled := Some False\<rparr>],
     r_by_hash = Some (find_by_digest [demo_client\<lparr>c_enabled := Some False\<rparr>])\<rparr>"

lemma closed_registry_indexed: "indexed_ok closed_registry"
  using demo_registry_indexed
  by (simp add: indexed_ok_def registry_ok_def demo_registry_def closed_registry_def client_ok_def digest_of_def)

theorem auth_fails_closed_witness:
  "\<exists>st' es. (\<forall>handler. auth demo_conn (Some closed_registry) handler auth_request (start_state ()) = (True, st'))
    \<and> rt_out st' = es \<and> answers es \<and> WStatus 403 \<in> set es \<and> rt_metrics st' = [AuthFailures ''client_disabled'']"
proof -
  have token: "''oat'' = presented_token (rq_header auth_request)" by code_simp
  have none: "\<not> admits closed_registry ''oat'' c" for c
    by (auto simp: admits_def closed_registry_def client_enabled_def)
  have known: "True \<longleftrightarrow> ''oat'' \<noteq> [] \<and> (\<exists>c \<in> set (r_clients closed_registry). digest_of c = hash_token ''oat'')"
    by (simp add: closed_registry_def demo_client_def digest_of_def)
  have "rt_out (start_state ()) = []" "rt_metrics (start_state ()) = []" by (simp_all add: start_state_def)
  with auth_fails_closed [OF closed_registry_indexed token none known, of demo_conn "start_state ()"]
  show ?thesis by simp
qed

section \<open>Bearers\<close>

lemma trim_by_empty:
  "trim_by ws s = [] \<Longrightarrow> s = [] \<or> (\<exists>a w. w \<in> set ws \<and> w \<noteq> [] \<and> s = a @ w)"
proof (induction ws s rule: trim_by.induct)
  case (1 ws s)
  show ?case
  proof (cases "find (\<lambda>w. w \<noteq> [] \<and> has_prefix w s) ws")
    case None
    with "1.prems" show ?thesis by (simp add: trim_by_stop)
  next
    case (Some w)
    then have w: "w \<in> set ws" "w \<noteq> []" "has_prefix w s" by (auto dest: find_in_set)
    then obtain t where t: "s = w @ t" by (auto simp: has_prefix_iff)
    have "trim_by ws t = []" using "1.prems" Some t by (simp add: trim_by_drop)
    with "1.IH" Some t consider "t = []" | a v where "v \<in> set ws" "v \<noteq> []" "t = a @ v" by auto
    then show ?thesis
    proof cases
      case 1
      with t w show ?thesis by (auto intro: exI [of _ "[]"])
    next
      case 2
      with t show ?thesis by (metis append_assoc)
    qed
  qed
qed

lemma trim_space_empty:
  assumes "trim_space s = []" and "s \<noteq> []"
  obtains a w where "w \<in> set space_seqs" "s = a @ w"
proof (cases "trim_left_space s = []")
  case True
  then show thesis using trim_by_empty assms(2) that unfolding trim_left_space_def by blast
next
  case False
  let ?t = "trim_left_space s"
  have "trim_by (map rev space_seqs) (rev ?t) = []"
    using assms(1) by (simp add: trim_space_def trim_right_space_def)
  moreover from this have "find (\<lambda>w. w \<noteq> [] \<and> has_prefix w (rev ?t)) (map rev space_seqs) \<noteq> None"
    using False trim_by_stop by fastforce
  ultimately obtain v where "v \<in> set (map rev space_seqs)" "has_prefix v (rev ?t)"
    by (auto dest: find_in_set)
  then obtain w u where w: "w \<in> set space_seqs" "rev ?t = rev w @ u" by (auto simp: has_prefix_iff)
  then have "?t = rev u @ w" by (metis rev_append rev_rev_ident)
  moreover obtain a where "s = a @ ?t" using trim_by_suffix unfolding trim_left_space_def by blast
  ultimately show thesis using that w(1) by (metis append_assoc)
qed

text \<open>A bearer that is recognised is never empty, so a request with one is looked up by it,
  and its \<open>x-api-key\<close> is not consulted; without one the \<open>x-api-key\<close> is the token.\<close>

theorem presented_token_cases:
  "(case cut_bearer (hget h ''Authorization'') of
      Some rest \<Rightarrow> rest \<noteq> [] \<and> presented_token h = rest
    | None \<Rightarrow> presented_token h = trim_space (hget h ''x-api-key''))"
proof (cases "cut_bearer (hget h ''Authorization'')")
  case None
  then show ?thesis by (simp add: presented_token_def Let_def)
next
  case (Some rest)
  let ?v = "hget h ''Authorization''"
  have "?v \<noteq> []" using Some by (auto simp: cut_bearer_def)
  moreover have "rest \<noteq> []"
  proof
    assume e: "rest = []"
    have seven: "length ''bearer '' = 7" by simp
    have len: "7 \<le> length (trim_space ?v)" and fold: "equal_fold (take 7 (trim_space ?v)) ''bearer ''"
      and rest: "rest = trim_space (drop 7 (trim_space ?v))"
      using Some unfolding cut_bearer_def Let_def seven by (auto split: if_splits)
    show False
    proof (cases "drop 7 (trim_space ?v) = []")
      case True
      then have t: "take 7 (trim_space ?v) = trim_space ?v" by simp
      with len True have "length (trim_space ?v) = 7" by simp
      then obtain a c where ac: "trim_space ?v = a @ [c]" "length a = 6"
        by (cases "trim_space ?v" rule: rev_cases) auto
      with fold t have "map lower_char a @ [lower_char c] = map lower_char ''bearer'' @ [lower_char (CHR '' '')]"
        by (simp add: equal_fold_def)
      then have "lower_char c = lower_char (CHR '' '')" by simp
      then have "c = CHR '' ''" by (auto simp: char_eq_nat lower_char_def split: if_splits)
      with ac trim_space_no_back [of "[CHR 0x20]" ?v a] show False by (simp add: space_seqs_def)
    next
      case False
      with e rest obtain a w where w: "w \<in> set space_seqs" "drop 7 (trim_space ?v) = a @ w"
        by (metis trim_space_empty)
      then have "trim_space ?v = (take 7 (trim_space ?v) @ a) @ w" by (metis append_assoc append_take_drop_id)
      with trim_space_no_back [OF w(1)] show False by blast
    qed
  qed
  ultimately show ?thesis using Some by (simp add: presented_token_def Let_def)
qed

section \<open>What an upstream sees\<close>

lemma header_names:
  "canon ''Authorization'' = ''Authorization''" "canon ''x-api-key'' = ''X-Api-Key''"
  "canon ''X-Api-Key'' = ''X-Api-Key''" "canon beta_header = ''Anthropic-Beta''"
  "canon ''Content-Length'' = ''Content-Length''"
  by code_simp+

lemma header_folds:
  "\<not> equal_fold ''Authorization'' beta_header" "\<not> equal_fold ''X-Api-Key'' beta_header"
  "equal_fold ''Anthropic-Beta'' beta_header"
  by code_simp+

lemma copy_header_values: "wf_header h \<Longrightarrow> hvalues (copy_header h) k = hvalues h k"
  using add_all_values [of h k] by (simp add: copy_header_def hdr.add_all_def)

text \<open>The beta a request carries after the merge.\<close>

definition merged_beta :: "bytes \<Rightarrow> bytes" where
  "merged_beta existing =
     (if existing = [] then oauth_beta
      else if contains existing oauth_beta then existing else existing @ '','' @ oauth_beta)"

lemma inject_beta_values:
  "hvalues (inject_value ''Anthropic-Beta'' oauth_beta h) k =
     (if canon k = ''Anthropic-Beta'' \<and> (hget h beta_header = [] \<or> \<not> contains (hget h beta_header) oauth_beta)
      then [merged_beta (hget h beta_header)] else hvalues h k)"
  by (simp add: inject_value_def header_folds merged_beta_def Let_def hdr.vals_put header_names)

lemma inject_auth_values:
  "hvalues (inject_auth (token_headers ty token) h) k =
     (if ty = TypeAnthropicAPI then (if canon k = ''X-Api-Key'' then [token] else hvalues h k)
      else if canon k = ''Authorization'' then [''Bearer '' @ token]
      else if ty = TypeAnthropicOAuth \<and> canon k = ''Anthropic-Beta''
        \<and> (hget h beta_header = [] \<or> \<not> contains (hget h beta_header) oauth_beta)
      then [merged_beta (hget h beta_header)]
      else hvalues h k)"
proof -
  let ?h = "hset h ''Authorization'' (''Bearer '' @ token)"
  have g: "hget ?h beta_header = hget h beta_header"
    by (rule hdr.get_put_other) (simp add: header_names)
  have api: "inject_auth [(''X-Api-Key'', [token])] h = hset h ''X-Api-Key'' token"
    and bearer: "inject_auth ((''Authorization'', [v]) # more) h
      = inject_auth more (hset h ''Authorization'' v)"
    and beta: "inject_auth [(''Anthropic-Beta'', [oauth_beta])] h' =
      inject_value ''Anthropic-Beta'' oauth_beta h'" for more v h'
    by (simp_all add: inject_auth_def inject_value_def [of "''X-Api-Key''"]
        inject_value_def [of "''Authorization''"] header_folds)
  show ?thesis
    by (cases "ty = TypeAnthropicAPI"; cases "ty = TypeAnthropicOAuth";
        simp add: token_headers_value api bearer beta inject_beta_values hdr.vals_put header_names
          inject_auth_def [of "[]"] g [simplified]; blast?)
qed

lemma upstream_header_values:
  "canon k \<noteq> ''Content-Length'' \<Longrightarrow>
     hvalues (upstream_header rq a b) k = hvalues (inject_auth a (copy_header (rq_header rq))) k"
  by (simp add: upstream_header_def Let_def hdr.vals_put header_names)

lemma build_request_header:
  "build_request getenv read_file rq body m = Some up \<Longrightarrow>
     up_header up = upstream_header rq
       (case member_token getenv read_file m of
          None \<Rightarrow> [] | Some t \<Rightarrow> if t = [] then [] else token_headers (m_type m) t) (up_body up)"
  by (auto simp: build_request_def Let_def auth_headers_def split: option.splits if_splits)

lemma stripped_values:
  "hvalues (strip_client_credentials h) k =
     (if canon k \<in> {''Authorization'', ''X-Api-Key''} then [] else hvalues h k)"
  by (simp add: strip_client_credentials_def hdr.vals_del header_names)

lemma wf_stripped: "wf_header h \<Longrightarrow> wf_header (strip_client_credentials h)"
  by (simp add: strip_client_credentials_def)

lemma authenticated_values:
  "wf_header (rq_header rq) \<Longrightarrow> hvalues (copy_header (rq_header (authenticated rq name))) k =
     (if canon k \<in> {''Authorization'', ''X-Api-Key''} then [] else hvalues (rq_header rq) k)"
  using copy_header_values [OF wf_stripped, of "rq_header rq" k] by (simp add: authenticated_def stripped_values)

lemma upstream_length_value:
  "canon k = ''Content-Length'' \<Longrightarrow> b \<noteq> [] \<Longrightarrow>
     hvalues (upstream_header rq a b) k = [decimal (int (length b))]"
  by (simp add: upstream_header_def Let_def hdr.vals_put header_names)

lemma upstream_empty_body:
  "hvalues (upstream_header rq a []) k = hvalues (inject_auth a (copy_header (rq_header rq))) k"
  by (simp add: upstream_header_def)

lemma upstream_values:
  assumes wf: "wf_header (rq_header rq)"
    and up: "build_request getenv read_file (authenticated rq name) body m = Some up"
    and token: "token = (case member_token getenv read_file m of None \<Rightarrow> [] | Some t \<Rightarrow> t)"
    and other: "canon k \<noteq> ''Content-Length'' \<or> up_body up = []"
  shows "hvalues (up_header up) k =
     (let h = copy_header (rq_header (authenticated rq name)) in
      if token = [] then hvalues h k else hvalues (inject_auth (token_headers (m_type m) token) h) k)"
proof -
  have "hvalues (up_header up) k = hvalues (inject_auth (case member_token getenv read_file m of
      None \<Rightarrow> [] | Some t \<Rightarrow> if t = [] then [] else token_headers (m_type m) t)
        (copy_header (rq_header (authenticated rq name)))) k"
    unfolding build_request_header [OF up] using other
    by (elim disjE) (erule upstream_header_values, simp only: upstream_empty_body)
  then show ?thesis by (simp add: token inject_auth_def [of "[]"] split: option.splits)
qed

text \<open>Property C8: The credential of the caller never reaches an upstream, and nothing else is lost but as
  documented. Of a request that passed authentication, every header of the upstream request is known:
  \<open>Authorization\<close> and \<open>x-api-key\<close> are exactly the pool member's credential, in the header its type
  calls for, or absent when the member has no readable credential; the beta of an OAuth member is the
  caller's first \<open>anthropic-beta\<close> line with the OAuth beta appended, unless that line has it
  already; the length is that of the rewritten body; and every other header is the caller's.\<close>

theorem upstream_credentials:
  assumes wf: "wf_header (rq_header rq)"
    and up: "build_request getenv read_file (authenticated rq name) body m = Some up"
    and token: "token = (case member_token getenv read_file m of None \<Rightarrow> [] | Some t \<Rightarrow> t)"
    and line: "line = hget (rq_header rq) ''anthropic-beta''"
  shows "hvalues (up_header up) k =
    (if canon k = ''Authorization'' then
       (if token \<noteq> [] \<and> m_type m \<noteq> TypeAnthropicAPI then [''Bearer '' @ token] else [])
     else if canon k = ''X-Api-Key'' then
       (if token \<noteq> [] \<and> m_type m = TypeAnthropicAPI then [token] else [])
     else if canon k = ''Anthropic-Beta'' \<and> token \<noteq> [] \<and> m_type m = TypeAnthropicOAuth
       \<and> (line = [] \<or> \<not> contains line ''oauth-2025-04-20'') then
       [if line = [] then ''oauth-2025-04-20'' else line @ '','' @ ''oauth-2025-04-20'']
     else if canon k = ''Content-Length'' \<and> up_body up \<noteq> [] then [decimal (int (length (up_body up)))]
     else hvalues (rq_header rq) k)"
proof (cases "canon k = ''Content-Length'' \<and> up_body up \<noteq> []")
  case True
  then show ?thesis using build_request_header [OF up] upstream_length_value by simp
next
  case False
  let ?h = "copy_header (rq_header (authenticated rq name))"
  have "hget ?h beta_header = hget (rq_header rq) beta_header"
    by (simp add: hget_def authenticated_values [OF wf] header_names)
  moreover have "hget (rq_header rq) beta_header = line" by (simp add: line beta_header_def)
  ultimately have first: "hget ?h beta_header = line" by simp
  have len: "(canon k = ''Content-Length'' \<and> up_body up \<noteq> []) = False" using False by simp
  have "hvalues (up_header up) k = (if token = [] then hvalues ?h k
      else hvalues (inject_auth (token_headers (m_type m) token) ?h) k)"
    using upstream_values [OF wf up token] False by (auto simp: Let_def)
  then show ?thesis
    unfolding len inject_auth_values first authenticated_values [OF wf] merged_beta_def oauth_beta_def
    by (auto simp: member_types)
qed

definition oauth_member :: member where
  "oauth_member = (demo_member ''a'')\<lparr>m_type := TypeAnthropicOAuth\<rparr>"

theorem upstream_credentials_witness:
  "\<exists>up. build_request (\<lambda>v. ''k1'') (\<lambda>f. None) (authenticated beta_request ''maria'') [] oauth_member = Some up
     \<and> hvalues (up_header up) ''Authorization'' = [''Bearer k1''] \<and> hvalues (up_header up) ''x-api-key'' = []
     \<and> hvalues (up_header up) ''anthropic-beta'' = [''a,oauth-2025-04-20'']"
proof -
  let ?b = "build_request (\<lambda>v. ''k1'') (\<lambda>f. None) (authenticated beta_request ''maria'') [] oauth_member"
  have "?b \<noteq> None" by code_simp
  then obtain up where up: "?b = Some up" by blast
  have wf: "wf_header (rq_header beta_request)"
    by (simp add: beta_request_def wf_header_def header_names) code_simp
  have token: "''k1'' = (case member_token (\<lambda>v. ''k1'') (\<lambda>f. None) oauth_member of None \<Rightarrow> [] | Some t \<Rightarrow> t)"
    by code_simp
  have line: "''a'' = hget (rq_header beta_request) ''anthropic-beta''" by code_simp
  have "canon ''Authorization'' = ''Authorization''" "canon ''x-api-key'' = ''X-Api-Key''"
    "canon ''anthropic-beta'' = ''Anthropic-Beta''" "\<not> contains ''a'' ''oauth-2025-04-20''" by code_simp+
  moreover have "m_type oauth_member = TypeAnthropicOAuth" "m_type oauth_member \<noteq> TypeAnthropicAPI" by code_simp+
  ultimately show ?thesis
    using up upstream_credentials [OF wf up token line] by simp
qed

text \<open>The beta of an OAuth member is merged into the caller's: a first \<open>anthropic-beta\<close> line
  of the caller survives, in front, and the OAuth beta is there exactly once more only if it was not
  already.\<close>

theorem beta_merged:
  assumes "wf_header (rq_header rq)"
    and "build_request getenv read_file rq body m = Some up"
    and "m_type m = TypeAnthropicOAuth" and "member_token getenv read_file m = Some token" and "token \<noteq> []"
  shows "hget (up_header up) beta_header = merged_beta (hget (rq_header rq) beta_header)
    \<and> contains (hget (up_header up) beta_header) oauth_beta
    \<and> has_prefix (hget (rq_header rq) beta_header) (hget (up_header up) beta_header)"
proof -
  let ?e = "hget (rq_header rq) beta_header"
  have c: "hvalues (copy_header (rq_header rq)) k = hvalues (rq_header rq) k" for k
    using copy_header_values assms(1) by blast
  then have e: "hget (copy_header (rq_header rq)) beta_header = ?e" by (simp add: hget_def)
  have "hvalues (up_header up) beta_header =
      (if ?e = [] \<or> \<not> contains ?e oauth_beta then [merged_beta ?e] else hvalues (rq_header rq) beta_header)"
    using build_request_header [OF assms(2)] assms(3-5)
    by (simp add: upstream_header_values header_names inject_auth_values e c member_types)
  then have "hget (up_header up) beta_header = merged_beta ?e"
    by (auto simp: hget_def [of "up_header up"] merged_beta_def) (simp add: hget_def)
  moreover have "contains (merged_beta ?e) oauth_beta" "has_prefix ?e (merged_beta ?e)"
    by (auto simp: merged_beta_def intro: contains_append_left) (simp add: has_prefix_iff)
  ultimately show ?thesis by simp
qed

theorem beta_merged_witness:
  "\<exists>up. build_request (\<lambda>v. ''k1'') (\<lambda>f. None) beta_request [] oauth_member = Some up
     \<and> hget (up_header up) beta_header = ''a,oauth-2025-04-20''"
proof -
  let ?b = "build_request (\<lambda>v. ''k1'') (\<lambda>f. None) beta_request [] oauth_member"
  have "?b \<noteq> None" by code_simp
  then obtain up where up: "?b = Some up" by blast
  have wf: "wf_header (rq_header beta_request)"
    by (simp add: beta_request_def wf_header_def header_names) code_simp
  have t: "m_type oauth_member = TypeAnthropicOAuth"
    "member_token (\<lambda>v. ''k1'') (\<lambda>f. None) oauth_member = Some ''k1''" by code_simp+
  have "merged_beta (hget (rq_header beta_request) beta_header) = ''a,oauth-2025-04-20''" by code_simp
  then show ?thesis using beta_merged [OF wf up t] up by auto
qed

text \<open>Only the first \<open>anthropic-beta\<close> line survives the merge: a caller that sends its betas
  on two header lines loses the second to an OAuth member.\<close>

theorem beta_second_line_lost:
  "hvalues (rq_header beta_request) beta_header = [''a'', ''b'']
   \<and> map_option (\<lambda>up. hvalues (up_header up) beta_header)
       (build_request (\<lambda>v. ''k1'') (\<lambda>f. None) beta_request [] oauth_member)
     = Some [''a,oauth-2025-04-20'']"
  by code_simp

end
