(* ===== verification/Client_Ip.thy ===== *)
theory Client_Ip
  imports Go_Net Http
begin

text \<open>
  \<open>internal/clientip/clientip.go\<close>: the address a request is attributed to. \<open>X-Forwarded-For\<close> is read
  from the right, and only behind a trusted peer; what a caller writes into the header itself is
  shown not to matter.
\<close>

section \<open>Building a resolver\<close>

text \<open>A resolver is its list of trusted blocks.\<close>

type_synonym resolver = "ip_net list"

datatype resolver_error = BadAddress bytes | BadCidr bytes | ItoaPanic

text \<open>\<open>itoa\<close> with its four-byte buffer.\<close>

definition ip_itoa :: "int \<Rightarrow> bytes option" where
  "ip_itoa n = (if n = 0 then Some ''0'' else itoa_fill 4 n [])"

definition cidr_entry :: "bytes \<Rightarrow> (resolver_error, ip_net option) outcome" where
  "cidr_entry e = (case parse_cidr e of None \<Rightarrow> Inl (BadCidr e) | Some b \<Rightarrow> Inr (Some b))"

text \<open>One entry; \<open>Inr None\<close> is an empty entry, which is skipped.\<close>

definition trusted_entry :: "bytes \<Rightarrow> (resolver_error, ip_net option) outcome" where
  "trusted_entry raw =
     (let entry = trim_space raw in
      if entry = [] then Inr None
      else if contains entry ''/'' then cidr_entry entry
      else case parse_ip entry of
        None \<Rightarrow> Inl (BadAddress entry)
      | Some ip \<Rightarrow>
          (case ip_itoa (if to4 ip = None then 128 else 32) of
             None \<Rightarrow> Inl ItoaPanic
           | Some bits \<Rightarrow> cidr_entry (entry @ ''/'' @ bits)))"

fun new_resolver :: "bytes list \<Rightarrow> (resolver_error, resolver) outcome" where
  "new_resolver [] = Inr []"
| "new_resolver (raw # cidrs) =
     (case trusted_entry raw of
        Inl e \<Rightarrow> Inl e
      | Inr b \<Rightarrow>
          (case new_resolver cidrs of
             Inl e \<Rightarrow> Inl e
           | Inr bs \<Rightarrow> Inr (case b of None \<Rightarrow> bs | Some blk \<Rightarrow> blk # bs)))"

section \<open>Resolving\<close>

definition host_only :: "bytes \<Rightarrow> bytes" where
  "host_only addr =
     (let a = trim_space addr in
      if a = [] then []
      else case split_host_port a of Some (host, port) \<Rightarrow> host | None \<Rightarrow> trim_chars a ''[]'')"

definition is_trusted :: "resolver \<Rightarrow> bytes \<Rightarrow> bool" where
  "is_trusted r addr =
     (case parse_ip addr of None \<Rightarrow> False | Some ip \<Rightarrow> list_ex (\<lambda>blk. net_contains blk ip) r)"

definition hop_of :: "bytes \<Rightarrow> bytes" where
  "hop_of part = host_only (trim_space part)"

definition header_hops :: "bytes \<Rightarrow> bytes list" where
  "header_hops v = filter (\<lambda>hop. hop \<noteq> []) (map hop_of (split_on CHR '','' v))"

definition forwarded_for :: "header \<Rightarrow> bytes list" where
  "forwarded_for h = concat (map header_hops (hvalues h ''X-Forwarded-For''))"

definition untrusted :: "resolver \<Rightarrow> bytes \<Rightarrow> bool" where
  "untrusted r hop \<longleftrightarrow> \<not> is_trusted r hop"

text \<open>\<open>reverse\<close> fills a slice from its end.\<close>

fun reverse_fill :: "nat \<Rightarrow> bytes list \<Rightarrow> bytes list \<Rightarrow> bytes list" where
  "reverse_fill i [] out = out"
| "reverse_fill i (v # vs) out = reverse_fill (Suc i) vs (out[length out - 1 - i := v])"

definition reverse_hops :: "bytes list \<Rightarrow> bytes list" where
  "reverse_hops hops = reverse_fill 0 hops (replicate (length hops) [])"

definition from_request :: "resolver option \<Rightarrow> header \<Rightarrow> bytes \<Rightarrow> bytes" where
  "from_request r hdrs remote =
     (let peer = host_only remote in
      case r of
        None \<Rightarrow> peer
      | Some trusted \<Rightarrow>
          if trusted = [] \<or> \<not> is_trusted trusted peer then peer
          else case find (untrusted trusted) (reverse_hops (forwarded_for hdrs)) of
            Some hop \<Rightarrow> hop
          | None \<Rightarrow> peer)"

section \<open>Which address is reported\<close>

lemma reverse_fill_rev:
  "length out = i + length vs \<Longrightarrow> drop (length vs) out = rev pre \<Longrightarrow> length pre = i \<Longrightarrow>
     reverse_fill i vs out = rev (pre @ vs)"
proof (induction i vs out arbitrary: pre rule: reverse_fill.induct)
  case (1 i out)
  then show ?case by simp
next
  case (2 i v vs out)
  have idx: "length out - Suc i = length vs" using 2(2) by simp
  let ?out = "out[length vs := v]"
  have "drop (length vs) ?out = v # drop (Suc (length vs)) out"
    using 2(2) by (simp add: drop_update_swap flip: Cons_nth_drop_Suc)
  then have "drop (length vs) ?out = rev (pre @ [v])" using 2(3) by simp
  then have "reverse_fill (Suc i) vs ?out = rev ((pre @ [v]) @ vs)"
    using 2(2,4) 2(1) [of "pre @ [v]"] by (simp add: idx)
  then show ?case by (simp add: idx)
qed

lemma reverse_hops_rev: "reverse_hops hops = rev hops"
  using reverse_fill_rev [of "replicate (length hops) []" 0 hops "[]"] by (simp add: reverse_hops_def)

lemma find_rev_last:
  "P x \<Longrightarrow> \<forall>y \<in> set b. \<not> P y \<Longrightarrow> find P (rev (a @ x # b)) = Some x"
proof -
  assume x: "P x" and b: "\<forall>y \<in> set b. \<not> P y"
  have "find P (rev b @ x # rev a) = Some x"
    using b by (induction b rule: rev_induct) (simp_all add: x)
  then show ?thesis by simp
qed

text \<open>Property C18: behind a trusted peer the address reported is the last hop that is not one of the
  trusted proxies. Nothing to the left of it, which is what a caller can forge, has any
  influence.\<close>

theorem from_request_last_untrusted:
  assumes "is_trusted trusted (host_only remote)"
    and "forwarded_for hdrs = forged @ hop # proxies"
    and "\<not> is_trusted trusted hop" and "\<forall>p \<in> set proxies. is_trusted trusted p"
  shows "from_request (Some trusted) hdrs remote = hop"
proof -
  have ne: "trusted \<noteq> []" using assms(1) by (auto simp: is_trusted_def split: option.splits)
  have "find (untrusted trusted) (reverse_hops (forwarded_for hdrs)) = Some hop"
    unfolding assms(2) reverse_hops_rev by (rule find_rev_last) (use assms(3,4) in \<open>simp_all add: untrusted_def\<close>)
  then show ?thesis using ne assms(1) by (simp add: from_request_def Let_def)
qed

text \<open>Property C37: a peer that is not trusted cannot be misattributed: its own address is reported
  whatever headers it sends; so is everyone's when no proxy is configured, and a trusted peer's
  when every hop is a trusted proxy.\<close>

theorem from_request_peer:
  assumes "r = None \<or> r = Some [] \<or> (\<exists>t. r = Some t \<and> (\<not> is_trusted t (host_only remote)
    \<or> (\<forall>p \<in> set (forwarded_for hdrs). is_trusted t p)))"
  shows "from_request r hdrs remote = host_only remote"
  using assms
  by (auto simp: from_request_def Let_def reverse_hops_rev find_None_iff untrusted_def dest!: find_in_set
      split: option.splits)

lemma hops_append:
  assumes "hvalues h ''X-Forwarded-For'' = [client @ '','' @ appended]"
  shows "forwarded_for h = header_hops client @ header_hops appended"
  using assms by (simp add: forwarded_for_def header_hops_def split_on_append)

text \<open>A proxy that appends the address it saw to the header it received makes that address
  the one reported, whatever the caller had put into the header.\<close>

theorem appended_address_wins:
  assumes "is_trusted trusted (host_only remote)"
    and "hvalues hdrs ''X-Forwarded-For'' = [sent @ '','' @ seen]"
    and "header_hops seen = [hop]" and "\<not> is_trusted trusted hop"
  shows "from_request (Some trusted) hdrs remote = hop"
proof -
  have "trusted \<noteq> []" using assms(1) by (auto simp: is_trusted_def split: option.splits)
  moreover have "find (untrusted trusted) (reverse_hops (forwarded_for hdrs)) = Some hop"
    using find_rev_last [of "untrusted trusted" hop "[]" "header_hops sent"] assms(3,4)
    by (simp add: hops_append [OF assms(2)] reverse_hops_rev untrusted_def)
  ultimately show ?thesis using assms(1) by (simp add: from_request_def Let_def)
qed

section \<open>Bare addresses\<close>

lemma ip_itoa_bits: "ip_itoa 32 = Some ''32''" "ip_itoa 128 = Some ''128''"
  by code_simp+

lemma mask_bits_values: "mask_bits ''32'' = Some 32" "mask_bits ''128'' = Some 128"
  by code_simp+

lemma full_masks: "cidr_mask 32 4 = replicate 4 255" "cidr_mask 128 16 = replicate 16 255"
  by code_simp+

lemma cut_on_here: "CHR ''/'' \<notin> set a \<Longrightarrow> cut_on CHR ''/'' (a @ CHR ''/'' # b) = Some (a, b)"
  by (simp add: cut_on_Some)

text \<open>The block a bare address becomes.\<close>

definition bare_block :: "addr \<Rightarrow> ip_net" where
  "bare_block a =
     (case a of V4 ip \<Rightarrow> \<lparr>net_ip = ip, net_mask = replicate 4 255\<rparr>
      | V6 ip z \<Rightarrow> \<lparr>net_ip = ip, net_mask = replicate 16 255\<rparr>)"

lemma bare_cidr:
  assumes a: "parse_addr entry = Some a" and z: "\<not> has_zone a" and slash: "CHR ''/'' \<notin> set entry"
    and bits: "case a of V4 ip \<Rightarrow> n = 32 | V6 ip z \<Rightarrow> n = 128" "ip_itoa n = Some s"
  shows "parse_cidr (entry @ ''/'' @ s) = Some (bare_block a)"
proof (cases a)
  case (V4 ip)
  then have s: "s = ''32''" using bits by (simp add: ip_itoa_bits)
  have "octets (v4_in_6 @ ip)" "length (v4_in_6 @ ip) = 16"
    using parse_addr_shape [OF a] V4 by (simp_all add: as16_def)
  then have "octets ip" "length ip = 4" by (simp_all add: v4_in_6_def)
  then have "ip_mask (v4_in_6 @ ip) (replicate 4 255) = ip"
    using mask_octets_full [of ip 4] by (simp add: ip_mask_def v4_in_6_def)
  then show ?thesis
    using a z V4 slash
    by (simp add: parse_cidr_def cut_on_here s mask_bits_values full_masks as16_def bare_block_def Let_def)
next
  case (V6 ip zn)
  then have s: "s = ''128''" using bits by (simp add: ip_itoa_bits)
  have "octets ip" "length ip = 16" using parse_addr_shape [OF a] V6 by (simp_all add: as16_def)
  then have "ip_mask ip (replicate 16 255) = ip"
    using mask_octets_full [of ip 16] by (simp add: ip_mask_def)
  then show ?thesis
    using a z V6 slash
    by (simp add: parse_cidr_def cut_on_here s mask_bits_values full_masks as16_def bare_block_def Let_def)
qed

lemma to4_length: "to4 x = Some y \<Longrightarrow> length y = 4"
  by (auto simp: to4_def split: if_splits)

lemma to4_full: "length x = 16 \<Longrightarrow> to4 x = Some y \<longleftrightarrow> x = v4_in_6 @ y"
proof
  assume "length x = 16" "to4 x = Some y"
  then have "take 12 x = v4_in_6" "drop 12 x = y" by (simp_all add: to4_def split: if_splits)
  then show "x = v4_in_6 @ y" by (metis append_take_drop_id)
qed (simp add: to4_def v4_in_6_def)

lemma bare_block_contains:
  assumes a: "octets (as16 a)" "length (as16 a) = 16" and x: "octets x" "length x = 16"
    and v6: "case a of V4 ip \<Rightarrow> True | V6 ip z \<Rightarrow> to4 ip = None"
  shows "net_contains (bare_block a) x \<longleftrightarrow> x = as16 a"
proof (cases a)
  case (V4 ip)
  then have ip: "octets ip" "length ip = 4" using a by (simp_all add: as16_def v4_in_6_def)
  then have nn: "network_number_and_mask (bare_block a) = Some (ip, replicate 4 255)"
    by (simp add: network_number_and_mask_def bare_block_def V4 to4_def)
  show ?thesis
  proof (cases "to4 x")
    case None
    then have "x \<noteq> as16 a" using to4_full [OF x(2), of ip] V4 by (auto simp: as16_def)
    with None nn ip x(2) show ?thesis by (simp add: net_contains_def)
  next
    case (Some y)
    then have y: "x = v4_in_6 @ y" "length y = 4" using to4_full [OF x(2)] to4_length by auto
    then have "octets y" using x(1) by simp
    then show ?thesis
      using Some y ip nn mask_octets_full [of ip 4] mask_octets_full [of y 4]
      by (auto simp: net_contains_def V4 as16_def)
  qed
next
  case (V6 ip z)
  then have ip: "octets ip" "length ip = 16" "to4 ip = None" using a v6 by (simp_all add: as16_def)
  then have nn: "network_number_and_mask (bare_block a) = Some (ip, replicate 16 255)"
    by (simp add: network_number_and_mask_def bare_block_def V6)
  show ?thesis
  proof (cases "to4 x")
    case None
    then show ?thesis
      using nn ip x mask_octets_full [of ip 16] mask_octets_full [of x 16]
      by (auto simp: net_contains_def V6 as16_def)
  next
    case (Some y)
    then have "length y = 4" by (rule to4_length)
    with Some nn ip show ?thesis by (auto simp: net_contains_def V6 as16_def)
  qed
qed

lemma no_slash: "CHR ''/'' \<notin> set e \<Longrightarrow> \<not> contains e ''/''"
  by (auto simp: contains_iff)

text \<open>Property C36: A bare IPv4 address, and a bare IPv6 address that is not an IPv4-mapped one, trusts
  exactly the peers with that address.\<close>

theorem bare_address_trusts_itself:
  assumes a: "parse_addr (trim_space raw) = Some a" and z: "\<not> has_zone a"
    and slash: "CHR ''/'' \<notin> set (trim_space raw)"
    and v6: "case a of V4 ip \<Rightarrow> True | V6 ip z \<Rightarrow> to4 ip = None"
  shows "\<exists>b. new_resolver [raw] = Inr [b]
    \<and> (\<forall>addr. is_trusted [b] addr \<longleftrightarrow> parse_ip addr = parse_ip (trim_space raw))"
proof -
  let ?e = "trim_space raw"
  have ip: "parse_ip ?e = Some (as16 a)" using a z by (simp add: parse_ip_def)
  have shape: "octets (as16 a)" "length (as16 a) = 16" using parse_addr_shape [OF a] by simp_all
  have bits: "(if to4 (as16 a) = None then 128 else 32) = (case a of V4 i \<Rightarrow> 32 | V6 i z \<Rightarrow> (128 :: int))"
    using v6 shape to4_full [of "as16 a"] by (auto simp: as16_def split: addr.splits)
  have "?e \<noteq> []" using a by (auto simp: parse_addr_def)
  moreover have "parse_cidr (?e @ ''/'' @ s) = Some (bare_block a)"
    if "ip_itoa (case a of V4 i \<Rightarrow> 32 | V6 i z \<Rightarrow> 128) = Some s" for s
    by (rule bare_cidr [OF a z slash _ that]) (simp split: addr.splits)
  moreover have "\<exists>s. ip_itoa (case a of V4 i \<Rightarrow> 32 | V6 i z \<Rightarrow> 128) = Some s"
    by (simp add: ip_itoa_bits split: addr.splits)
  ultimately have "new_resolver [raw] = Inr [bare_block a]"
    using no_slash [OF slash] ip by (auto simp: trusted_entry_def cidr_entry_def Let_def bits)
  moreover have "is_trusted [bare_block a] addr \<longleftrightarrow> parse_ip addr = parse_ip ?e" for addr
  proof (cases "parse_ip addr")
    case None
    then show ?thesis by (simp add: is_trusted_def ip)
  next
    case (Some x)
    then have "octets x" "length x = 16" using parse_ip_shape by blast+
    with Some show ?thesis using bare_block_contains [OF shape _ _ v6] by (simp add: is_trusted_def ip)
  qed
  ultimately show ?thesis by blast
qed

theorem bare_address_trusts_itself_witness:
  "\<exists>b. new_resolver ['' 10.0.0.1''] = Inr [b]
    \<and> (\<forall>addr. is_trusted [b] addr \<longleftrightarrow> parse_ip addr = parse_ip (trim_space '' 10.0.0.1''))"
proof (rule bare_address_trusts_itself)
  show "parse_addr (trim_space '' 10.0.0.1'') = Some (V4 [10, 0, 0, 1])" by code_simp
  show "CHR ''/'' \<notin> set (trim_space '' 10.0.0.1'')" by code_simp
qed (simp_all add: has_zone_def)

text \<open>A bare IPv4-mapped IPv6 address is not such an entry: its block is \<open>::/32\<close>, which does
  not hold the address itself but does hold the IPv6 loopback, so a local caller is trusted to name
  any address.\<close>

theorem mapped_address_trusts_others:
  "(case new_resolver [''::ffff:10.0.0.1''] of
      Inl e \<Rightarrow> False
    | Inr r \<Rightarrow> is_trusted r ''::1'' \<and> \<not> is_trusted r ''::ffff:10.0.0.1'' \<and> \<not> is_trusted r ''10.0.0.1''
        \<and> from_request (Some r) [(''X-Forwarded-For'', [''192.0.2.7''])] ''[::1]:5000'' = ''192.0.2.7'')"
  by code_simp

definition proxy_block :: resolver where
  "proxy_block = [\<lparr>net_ip = [10, 0, 0, 0], net_mask = [255, 0, 0, 0]\<rparr>]"

theorem from_request_last_untrusted_witness:
  "from_request (Some proxy_block) [(''X-Forwarded-For'', [''1.1.1.1, 192.0.2.7, 10.0.0.2''])] ''10.0.0.1:80''
     = ''192.0.2.7''"
  by (rule from_request_last_untrusted [where forged = "[''1.1.1.1'']" and proxies = "[''10.0.0.2'']"])
    code_simp+

theorem from_request_peer_witness:
  "from_request (Some proxy_block) [(''X-Forwarded-For'', [''1.1.1.1''])] ''192.0.2.7:80''
     = host_only ''192.0.2.7:80''"
proof (rule from_request_peer)
  have "\<not> is_trusted proxy_block (host_only ''192.0.2.7:80'')" by code_simp
  then show "Some proxy_block = None \<or> Some proxy_block = Some [] \<or>
      (\<exists>t. Some proxy_block = Some t \<and> (\<not> is_trusted t (host_only ''192.0.2.7:80'')
        \<or> (\<forall>p \<in> set (forwarded_for [(''X-Forwarded-For'', [''1.1.1.1''])]). is_trusted t p)))"
    by simp
qed

theorem appended_address_wins_witness:
  "from_request (Some proxy_block) [(''X-Forwarded-For'', [''10.9.9.9,evil,192.0.2.7''])] ''10.0.0.1:80''
     = ''192.0.2.7''"
  by (rule appended_address_wins [where sent = "''10.9.9.9,evil''" and seen = "''192.0.2.7''"])
    code_simp+

end
