(* ===== verification/Middleware.thy ===== *)
theory Middleware
  imports Auth Client_Ip
begin

text \<open>
  \<open>internal/proxy/middleware.go\<close>: the access log with its status recorder, and the resolution of the
  caller's address. What the layers of the chain owe each other is stated as two locales: a
  handler that answers every request it returns from, and a middleware that keeps that.
\<close>

section \<open>The status recorder\<close>

record status_recorder =
  sr_status :: int
  sr_written :: int
  sr_wrote :: bool

definition new_recorder :: status_recorder where
  "new_recorder = \<lparr>sr_status = 200, sr_written = 0, sr_wrote = False\<rparr>"

text \<open>The recorder overrides \<open>WriteHeader\<close>, \<open>Write\<close> and \<open>Flush\<close>; the header map is the wrapped
  writer's. Every call is passed on unchanged, so the events of the handler are the events of the
  wrapped writer.\<close>

fun recorder_event :: "wevent \<Rightarrow> status_recorder \<Rightarrow> status_recorder" where
  "recorder_event (WStatus code) s =
     (if \<not> sr_wrote s then s\<lparr>sr_status := code, sr_wrote := True\<rparr> else s)"
| "recorder_event (WBody b) s = s\<lparr>sr_wrote := True, sr_written := sr_written s + int (length b)\<rparr>"
| "recorder_event _ s = s"

definition recorded :: "wevent list \<Rightarrow> status_recorder" where
  "recorded es = fold recorder_event es new_recorder"

section \<open>The access log\<close>

definition logged_client :: "request \<Rightarrow> 'w rstate \<Rightarrow> bytes" where
  "logged_client rq st =
     (case rt_scope st of
        Some s \<Rightarrow> if sc_client s \<noteq> [] then sc_client s else client_name rq
      | None \<Rightarrow> client_name rq)"

text \<open>The handler behind runs on a fresh recorder; a panic skips the log line.\<close>

definition access_log :: "'w http_handler \<Rightarrow> 'w http_handler" where
  "access_log handler rq st =
     (if rq_path rq = ''/health'' then handler rq st
      else case handler rq (st\<lparr>rt_out := []\<rparr>) of
        (returned, st1) \<Rightarrow>
          let es = rt_out st1; rec = recorded es; st2 = st1\<lparr>rt_out := rt_out st @ es\<rparr> in
          if \<not> returned then (False, st2)
          else (True, log_line (AccessLine (rq_method rq) (rq_path rq) (sr_status rec) (sr_written rec)
                  (logged_client rq st2) (scope_ip st2) (hget (rq_header rq) ''User-Agent'')) st2))"

section \<open>The caller's address\<close>

definition real_ip :: "resolver option \<Rightarrow> 'w http_handler \<Rightarrow> 'w http_handler" where
  "real_ip r handler rq st =
     handler rq (st\<lparr>rt_scope :=
       Some \<lparr>sc_ip = from_request r (rq_header rq) (rq_remote rq), sc_client = []\<rparr>\<rparr>)"

section \<open>The contract of a layer\<close>

definition answering :: "'w http_handler \<Rightarrow> bool" where
  "answering handler \<longleftrightarrow>
     (\<forall>rq st st'. handler rq st = (True, st') \<longrightarrow> (\<exists>es. rt_out st' = rt_out st @ es \<and> answers es))"

locale answering_handler =
  fixes handler :: "'w http_handler"
  assumes answered: "handler rq st = (True, st') \<Longrightarrow> \<exists>es. rt_out st' = rt_out st @ es \<and> answers es"
begin

lemma is_answering: "answering handler"
  using answered by (simp add: answering_def)

text \<open>On a fresh connection the events are the answer.\<close>

lemma fresh_answer: "handler rq st = (True, st') \<Longrightarrow> rt_out st = [] \<Longrightarrow> answers (rt_out st')"
  using answered by fastforce

end

locale middleware =
  fixes wrap :: "'w http_handler \<Rightarrow> 'w http_handler"
  assumes keeps_answering: "answering handler \<Longrightarrow> answering (wrap handler)"
begin

lemma wrapped:
  assumes "answering handler"
  shows "answering_handler (wrap handler)"
  using keeps_answering [OF assms] by unfold_locales (simp add: answering_def)

lemma stack:
  assumes "answering handler" and "\<And>f. answering f \<Longrightarrow> answering (outer f)"
  shows "answering (outer (wrap handler))"
  using assms keeps_answering by blast

end

interpretation serving: answering_handler "serve_http h" for h :: "'w handler"
  by unfold_locales (rule serve_http_answers)

lemma auth_answering:
  assumes "answering handler"
  shows "answering (auth conn active handler)"
proof -
  have rej: "\<exists>es. rt_out (reject conn rq status reason ty msg attrs st) = rt_out st @ es \<and> answers es"
    for rq status reason ty msg attrs and st :: "'a rstate"
    using reject_answers by blast
  show ?thesis
    unfolding answering_def
  proof (intro allI impI)
    fix rq and st st' :: "'a rstate"
    assume a: "auth conn active handler rq st = (True, st')"
    consider (rejected) status reason ty msg attrs where
        "st' = reject conn rq status reason ty msg attrs st"
      | (passed) name where "handler (authenticated rq name) (tag_scope name st) = (True, st')"
      using a by (auto simp: auth_def Let_def split: if_splits option.splits)
    then show "\<exists>es. rt_out st' = rt_out st @ es \<and> answers es"
    proof cases
      case passed
      then show ?thesis using assms by (fastforce simp: answering_def tag_scope_def)
    qed (use rej in blast)
  qed
qed

lemma access_log_answering:
  assumes "answering handler"
  shows "answering (access_log handler)"
proof -
  have "\<exists>es. rt_out st' = rt_out st @ es \<and> answers es"
    if log: "access_log handler rq st = (True, st')" for rq st st'
  proof (cases "rq_path rq = ''/health''")
    case True
    with log assms show ?thesis by (simp add: access_log_def answering_def)
  next
    case False
    then obtain st1 where h: "handler rq (st\<lparr>rt_out := []\<rparr>) = (True, st1)"
      and st': "rt_out st' = rt_out st @ rt_out st1"
      using log by (auto simp: access_log_def Let_def split: prod.splits if_splits)
    have "\<exists>es. rt_out st1 = rt_out (st\<lparr>rt_out := []\<rparr>) @ es \<and> answers es"
      using assms h unfolding answering_def by blast
    with st' show ?thesis by simp
  qed
  then show ?thesis by (simp add: answering_def)
qed

interpretation auth_layer: middleware "auth conn active" for conn :: "'w conn" and active
  by unfold_locales (rule auth_answering)

interpretation log_layer: middleware "access_log :: 'w http_handler \<Rightarrow> 'w http_handler"
  by unfold_locales (rule access_log_answering)

interpretation ip_layer: middleware "real_ip r :: 'w http_handler \<Rightarrow> 'w http_handler" for r
  by unfold_locales (fastforce simp: answering_def real_ip_def)

section \<open>What the handler leaves to the layers around it\<close>

text \<open>The handler neither logs nor touches the scope.\<close>

definition quiet :: "'w rstate \<Rightarrow> 'w rstate \<Rightarrow> bool" where
  "quiet st st' \<longleftrightarrow> rt_scope st' = rt_scope st \<and> rt_log st' = rt_log st"

lemma quiet_refl [simp]: "quiet st st" "quiet st (emit es st)" "quiet st (count ms st)"
    "quiet st (st\<lparr>rt_world := w\<rparr>)"
  by (simp_all add: quiet_def)

lemma quiet_trans: "quiet a b \<Longrightarrow> quiet b c \<Longrightarrow> quiet a c"
  by (simp add: quiet_def)

lemma write_body_quiet: "write_body conn b st = (ok, st') \<Longrightarrow> quiet st st'"
  by (auto simp: write_body_def quiet_def split: prod.splits)

lemma copy_stream_quiet: "copy_stream conn chunks ob st = (ob', st') \<Longrightarrow> quiet st st'"
proof (induction chunks arbitrary: ob st)
  case Nil
  then show ?case by simp
next
  case (Cons chunk chunks)
  obtain ok st1 where w: "write_body conn chunk st = (ok, st1)" by force
  then have "quiet st st1" by (rule write_body_quiet)
  then have flushed: "quiet st (emit [WFlush] st1)" by (rule quiet_trans) simp
  have "quiet st st'" if "copy_stream conn chunks ob1 (emit [WFlush] st1) = (ob', st')" for ob1
    by (rule quiet_trans [OF flushed Cons.IH [OF that]])
  with \<open>quiet st st1\<close> show ?case
    using Cons.prems Cons.IH w by (auto simp: Let_def split: if_splits)
qed

lemma finish_quiet:
  assumes "finish h name m session status hdrs body st = (res, st')"
  shows "quiet st st'"
proof -
  let ?st2 = "write_headers hdrs (pin_session h session m st)"
  have 2: "quiet st ?st2" by (simp add: write_headers_def pin_session_def quiet_def)
  obtain ob st3 where c: "copy_stream (h_conn h) (rd_chunks body)
      (new_usage_observer (hget hdrs ''Content-Type'')) (emit [WStatus status] ?st2) = (ob, st3)" by force
  have "quiet ?st2 st3" using copy_stream_quiet [OF c] by (simp add: quiet_def)
  with 2 have "quiet st st3" by (rule quiet_trans)
  with 2 assms c show ?thesis by (auto simp: finish_def Let_def quiet_def split: if_splits)
qed

lemma try_response_quiet:
  assumes "try_response h name session m rp st = (res, st')"
  shows "quiet st st'"
  using assms
proof (cases rule: try_response_runs)
  case (final r body)
  then show ?thesis using finish_quiet by blast
qed (simp add: quiet_def)

lemma send_steps_quiet [simp]:
  "quiet st (note_sticky h session m b st)" "quiet st (transport_failure h name m st)"
  by (auto simp: note_sticky_def transport_failure_def quiet_def Let_def split: prod.splits option.splits)

lemma serve_step_quiet:
  assumes "serve_step h rq name body members a tried l st = (r, st')"
  shows "quiet st st'"
  using assms
proof (cases rule: serve_step_runs)
  case no_candidate
  then show ?thesis by simp
next
  case (no_pick b p)
  then show ?thesis by (metis quiet_refl(4))
next
  case (sent b m w st1 o1 w1)
  have 1: "quiet st (st1\<lparr>rt_world := w1\<rparr>)" unfolding sent(5)
    by (intro quiet_trans [OF quiet_refl(4) quiet_trans [OF send_steps_quiet(1) quiet_refl(4)]])
  from sent(7) show ?thesis using quiet_trans [OF 1] send_steps_quiet(2) try_response_quiet by metis
qed

lemma serve_loop_quiet:
  assumes "serve_loop h rq name body members a tried l st = ((res, tried'), st')"
  shows "quiet st st'"
  by (rule serve_loop_rule [OF assms, where I = "\<lambda>a t l s. quiet st s"])
    (auto intro: quiet_trans serve_step_quiet)

lemma http_error_quiet: "quiet st (http_error conn msg code st)"
  unfolding http_error_def
  by (rule quiet_trans [OF quiet_refl(2) write_body_quiet]) (rule prod.collapse [symmetric])

lemma answer_failure_quiet: "answer_failure h l st = (ok, st') \<Longrightarrow> quiet st st'"
proof -
  assume a: "answer_failure h l st = (ok, st')"
  have w: "quiet st (snd (write_body (h_conn h) b (emit es (write_headers hd st))))" for b es hd
    by (rule quiet_trans [OF _ write_body_quiet [OF prod.collapse [symmetric]]])
      (simp add: write_headers_def quiet_def)
  show ?thesis
    using a w by (auto simp: answer_failure_def Let_def write_headers_def http_error_quiet
        split: option.splits if_splits)
qed

lemma serve_http_quiet: "serve_http h rq st = (ok, st') \<Longrightarrow> quiet st st'"
proof -
  assume s: "serve_http h rq st = (ok, st')"
  show ?thesis
  proof (cases "\<exists>p. h_active h = Some p \<and> p_members p \<noteq> []")
    case False
    with s show ?thesis by (auto simp: serve_http_def http_error_quiet split: option.splits)
  next
    case True
    then obtain p where p: "h_active h = Some p" "p_members p \<noteq> []" by blast
    obtain res tried st1 where l: "serve_loop h rq (client_name rq)
        (case fst (clone_body (rq_body rq)) of Inl e \<Rightarrow> [] | Inr b \<Rightarrow> b) (p_members p) 0 [] None st
        = ((res, tried), st1)" by (metis prod.exhaust)
    show ?thesis
      using s p l serve_loop_quiet [OF l] answer_failure_quiet quiet_trans
      by (cases res) (auto simp: serve_http_def, blast)
  qed
qed

section \<open>The access log is truthful\<close>

lemma recorded_header: "list_all header_event hs \<Longrightarrow> fold recorder_event hs s = s"
proof (induction hs arbitrary: s)
  case (Cons e hs)
  then show ?case by (cases e) auto
qed simp

lemma recorded_body:
  "list_all body_event bs \<Longrightarrow> sr_wrote s \<Longrightarrow>
     fold recorder_event bs s = s\<lparr>sr_written := sr_written s + int (length (body_of bs))\<rparr>"
proof (induction bs arbitrary: s)
  case (Cons e bs)
  then show ?case by (cases e) auto
qed simp

lemma recorded_answer:
  assumes "list_all header_event hs" and "list_all body_event bs"
  shows "recorded (hs @ WStatus c # bs) =
    \<lparr>sr_status = c, sr_written = int (length (body_of bs)), sr_wrote = True\<rparr>"
  using assms by (simp add: recorded_def new_recorder_def recorded_header recorded_body)

lemma deliver_body: "rs_body (fold deliver_event es r) = rs_body r @ body_of es"
proof (induction es arbitrary: r)
  case (Cons e es)
  have "rs_body (deliver_event e r) = rs_body r @ event_body e"
    by (cases e) (simp_all add: commit_def Let_def)
  with Cons show ?case by simp
qed simp

lemma deliver_all_body: "rs_body (deliver es) = body_of es"
  by (simp add: deliver_def deliver_body no_response_def)

lemma access_log_line:
  assumes "answering handler" and "rq_path rq \<noteq> ''/health''" and "access_log handler rq st = (True, st')"
  shows "\<exists>st1 status. handler rq (st\<lparr>rt_out := []\<rparr>) = (True, st1)
    \<and> answers (rt_out st1) \<and> WStatus status \<in> set (rt_out st1)
    \<and> st' = st1\<lparr>rt_out := rt_out st @ rt_out st1,
        rt_log := rt_log st1 @ [AccessLine (rq_method rq) (rq_path rq) status
          (int (length (rs_body (deliver (rt_out st1))))) (logged_client rq st1) (scope_ip st1)
          (hget (rq_header rq) ''User-Agent'')]\<rparr>"
proof -
  obtain st1 where h: "handler rq (st\<lparr>rt_out := []\<rparr>) = (True, st1)"
    and st': "st' = log_line (AccessLine (rq_method rq) (rq_path rq) (sr_status (recorded (rt_out st1)))
        (sr_written (recorded (rt_out st1))) (logged_client rq (st1\<lparr>rt_out := rt_out st @ rt_out st1\<rparr>))
        (scope_ip (st1\<lparr>rt_out := rt_out st @ rt_out st1\<rparr>)) (hget (rq_header rq) ''User-Agent''))
        (st1\<lparr>rt_out := rt_out st @ rt_out st1\<rparr>)"
    using assms(2,3) by (auto simp: access_log_def Let_def split: prod.splits if_splits)
  have "\<exists>es. rt_out st1 = rt_out (st\<lparr>rt_out := []\<rparr>) @ es \<and> answers es"
    using assms(1) h unfolding answering_def by blast
  then have ans: "answers (rt_out st1)" by simp
  then obtain hs c bs where es: "rt_out st1 = hs @ WStatus c # bs" "list_all header_event hs"
      "list_all body_event bs" by (auto simp: answers_iff)
  have rec: "recorded (rt_out st1) = \<lparr>sr_status = c, sr_written = int (length (body_of bs)), sr_wrote = True\<rparr>"
    unfolding es(1) by (rule recorded_answer [OF es(2,3)])
  have "body_of hs = []" using es(2)
  proof (induction hs)
    case (Cons e hs)
    then show ?case by (cases e) auto
  qed simp
  then have "rs_body (deliver (rt_out st1)) = body_of bs"
    by (simp add: deliver_all_body es(1))
  then show ?thesis
    using h ans rec
    by (intro exI [of _ st1] exI [of _ c]) (simp add: st' es(1) logged_client_def scope_ip_def log_line_def)
qed

text \<open>Property C24: the access log tells the truth and is transparent. For a handler that answers, the
  request ends in the state the handler left, its response unchanged and in full, except that one
  line was added: it has the status the handler committed, the number of body bytes the caller
  received, and the client and address of the request.\<close>

theorem access_log_truthful:
  assumes "answering handler" and "rq_path rq \<noteq> ''/health''" and "access_log handler rq st = (True, st')"
  shows "\<exists>st1 status. handler rq (st\<lparr>rt_out := []\<rparr>) = (True, st1)
    \<and> answers (rt_out st1) \<and> WStatus status \<in> set (rt_out st1)
    \<and> st' = st1\<lparr>rt_out := rt_out st @ rt_out st1,
        rt_log := rt_log st1 @ [AccessLine (rq_method rq) (rq_path rq) status
          (int (length (rs_body (deliver (rt_out st1))))) (logged_client rq st1) (scope_ip st1)
          (hget (rq_header rq) ''User-Agent'')]\<rparr>"
  using assms by (rule access_log_line)

theorem access_log_truthful_witness:
  "\<exists>st1 status. serve_http (demo_handler None) demo_request (start_state ()) = (True, st1)
    \<and> WStatus status \<in> set (rt_out st1)
    \<and> snd (access_log (serve_http (demo_handler None)) demo_request (start_state ())) =
      st1\<lparr>rt_log := [AccessLine ''POST'' ''/v1'' status (int (length (rs_body (deliver (rt_out st1))))) ''alice'' [] []]\<rparr>"
proof -
  let ?r = "access_log (serve_http (demo_handler None)) demo_request (start_state ())"
  have out: "(start_state ())\<lparr>rt_out := []\<rparr> = start_state ()" by (simp add: start_state_def)
  have ok: "fst (serve_http (demo_handler None) demo_request (start_state ()))" by code_simp
  have path: "rq_path demo_request \<noteq> ''/health''" by (simp add: demo_request_def)
  have "fst ?r"
    using ok path by (cases "serve_http (demo_handler None) demo_request (start_state ())")
      (simp add: access_log_def out Let_def)
  then have r: "?r = (True, snd ?r)" by (simp add: prod_eq_iff)
  obtain st1 status where st1: "serve_http (demo_handler None) demo_request (start_state ()) = (True, st1)"
    and s: "WStatus status \<in> set (rt_out st1)"
    and log: "snd ?r = st1\<lparr>rt_out := rt_out (start_state ()) @ rt_out st1,
        rt_log := rt_log st1 @ [AccessLine (rq_method demo_request) (rq_path demo_request) status
          (int (length (rs_body (deliver (rt_out st1))))) (logged_client demo_request st1) (scope_ip st1)
          (hget (rq_header demo_request) ''User-Agent'')]\<rparr>"
    using access_log_truthful [OF serving.is_answering path r] unfolding out by blast
  have "rt_log st1 = []" "rt_scope st1 = None"
    using serve_http_quiet [OF st1] by (simp_all add: quiet_def start_state_def)
  moreover have "rt_out (start_state ()) = []" by (simp add: start_state_def)
  ultimately have "snd ?r = st1\<lparr>rt_log := [AccessLine ''POST'' ''/v1'' status
      (int (length (rs_body (deliver (rt_out st1))))) ''alice'' [] []]\<rparr>"
    unfolding log by (simp add: demo_request_def logged_client_def scope_ip_def client_name_def hget_def hvalues_def)
  with st1 s show ?thesis by blast
qed

end
