(* ===== verification/Config.thy ===== *)
theory Config
  imports Go_Strings Store
begin

text \<open>
  \<open>internal/config/config.go\<close> and the dispatch of \<open>cmd/proem/main.go\<close>: the command line. Parsing is
  that of the standard \<open>flag\<close> package over the flags the program defines; the value of a duration
  flag is read by an argument, \<open>time.ParseDuration\<close>.
\<close>

section \<open>Configuration\<close>

definition StickyLB :: bytes where "StickyLB = ''lb''"
definition StickyRedis :: bytes where "StickyRedis = ''redis''"
definition StickyNone :: bytes where "StickyNone = ''none''"

record config =
  cf_config_path :: bytes
  cf_clients_path :: bytes
  cf_redis_url :: bytes
  cf_listen_addr :: bytes
  cf_metrics_addr :: bytes
  cf_sticky_mode :: bytes
  cf_access_log :: bool
  cf_log_format :: bytes
  cf_trusted_proxies :: "bytes list"
  cf_read_timeout :: int
  cf_write_timeout :: int
  cf_upstream_timeout :: int

definition default_config :: config where
  "default_config =
     \<lparr>cf_config_path = ''./pool.yaml'', cf_clients_path = ''./clients.yaml'',
      cf_redis_url = ''redis://localhost:6379/0'', cf_listen_addr = '':8080'',
      cf_metrics_addr = '':9090'', cf_sticky_mode = StickyLB, cf_access_log = True,
      cf_log_format = ''text'', cf_trusted_proxies = [], cf_read_timeout = 10 * second,
      cf_write_timeout = 60 * second, cf_upstream_timeout = 60 * second\<rparr>"

section \<open>Flags\<close>

datatype flag_kind = StringFlag | BoolFlag | DurationFlag

definition string_flags :: "bytes list" where
  "string_flags = [''config'', ''clients'', ''redis-url'', ''listen'', ''metrics-addr'', ''sticky-mode'',
     ''log-format'', ''trusted-proxies'']"

definition duration_flags :: "bytes list" where
  "duration_flags = [''read-timeout'', ''write-timeout'', ''upstream-timeout'']"

definition flag_kind_of :: "bytes \<Rightarrow> flag_kind option" where
  "flag_kind_of name =
     (if name \<in> set string_flags then Some StringFlag
      else if name = ''access-log'' then Some BoolFlag
      else if name \<in> set duration_flags then Some DurationFlag
      else None)"

text \<open>The variables the flags are bound to.\<close>

record flag_state =
  fl_cfg :: config
  fl_sticky :: bytes
  fl_trusted :: bytes

definition initial_flags :: flag_state where
  "initial_flags = \<lparr>fl_cfg = default_config, fl_sticky = cf_sticky_mode default_config, fl_trusted = []\<rparr>"

definition set_cfg :: "(config \<Rightarrow> config) \<Rightarrow> flag_state \<Rightarrow> flag_state" where
  "set_cfg f st = st\<lparr>fl_cfg := f (fl_cfg st)\<rparr>"

definition set_string :: "bytes \<Rightarrow> bytes \<Rightarrow> flag_state \<Rightarrow> flag_state" where
  "set_string name v st =
     (if name = ''config'' then set_cfg (cf_config_path_update (\<lambda>_. v)) st
      else if name = ''clients'' then set_cfg (cf_clients_path_update (\<lambda>_. v)) st
      else if name = ''redis-url'' then set_cfg (cf_redis_url_update (\<lambda>_. v)) st
      else if name = ''listen'' then set_cfg (cf_listen_addr_update (\<lambda>_. v)) st
      else if name = ''metrics-addr'' then set_cfg (cf_metrics_addr_update (\<lambda>_. v)) st
      else if name = ''sticky-mode'' then st\<lparr>fl_sticky := v\<rparr>
      else if name = ''log-format'' then set_cfg (cf_log_format_update (\<lambda>_. v)) st
      else if name = ''trusted-proxies'' then st\<lparr>fl_trusted := v\<rparr>
      else st)"

definition set_duration :: "bytes \<Rightarrow> int \<Rightarrow> flag_state \<Rightarrow> flag_state" where
  "set_duration name d st =
     (if name = ''read-timeout'' then set_cfg (cf_read_timeout_update (\<lambda>_. d)) st
      else if name = ''write-timeout'' then set_cfg (cf_write_timeout_update (\<lambda>_. d)) st
      else if name = ''upstream-timeout'' then set_cfg (cf_upstream_timeout_update (\<lambda>_. d)) st
      else st)"

text \<open>\<open>strconv.ParseBool\<close>.\<close>

definition parse_bool :: "bytes \<Rightarrow> bool option" where
  "parse_bool s =
     (if s \<in> {''1'', ''t'', ''T'', ''true'', ''TRUE'', ''True''} then Some True
      else if s \<in> {''0'', ''f'', ''F'', ''false'', ''FALSE'', ''False''} then Some False
      else None)"

definition set_flag :: "(bytes \<Rightarrow> int option) \<Rightarrow> flag_kind \<Rightarrow> bytes \<Rightarrow> bytes \<Rightarrow> flag_state \<Rightarrow> flag_state option" where
  "set_flag parse_duration kind name v st =
     (case kind of
        StringFlag \<Rightarrow> Some (set_string name v st)
      | BoolFlag \<Rightarrow> map_option (\<lambda>b. set_cfg (cf_access_log_update (\<lambda>_. b)) st) (parse_bool v)
      | DurationFlag \<Rightarrow> map_option (\<lambda>d. set_duration name d st) (parse_duration v))"

datatype flag_error =
    BadFlagSyntax bytes
  | HelpRequested
  | NotDefined bytes
  | NeedsArgument bytes
  | InvalidValue bytes bytes

text \<open>One argument: the parsing stops (\<open>None\<close>), or goes on with a name, a value if one is attached, and
  the remaining arguments.\<close>

definition split_flag :: "bytes \<Rightarrow> (flag_error, (bytes \<times> bytes option) option) outcome" where
  "split_flag s =
     (if length s < 2 \<or> hd s \<noteq> CHR ''-'' \<or> s = ''--'' then Inr None
      else let name = (if s ! 1 = CHR ''-'' then drop 2 s else drop 1 s) in
        if name = [] \<or> hd name = CHR ''-'' \<or> hd name = CHR ''='' then Inl (BadFlagSyntax s)
        else (case cut_on (CHR ''='') name of
                None \<Rightarrow> Inr (Some (name, None))
              | Some (n, v) \<Rightarrow> Inr (Some (n, Some v))))"

text \<open>The value of a flag: the one attached, \<open>true\<close> for a boolean flag, else the next argument.\<close>

definition flag_value ::
  "flag_kind \<Rightarrow> bytes \<Rightarrow> bytes option \<Rightarrow> bytes list \<Rightarrow> (flag_error, bytes \<times> bytes list) outcome" where
  "flag_value kind name attached args =
     (case attached of
        Some v \<Rightarrow> Inr (v, args)
      | None \<Rightarrow>
          if kind = BoolFlag then Inr (''true'', args)
          else case args of [] \<Rightarrow> Inl (NeedsArgument name) | v # rest \<Rightarrow> Inr (v, rest))"

text \<open>One step of \<open>FlagSet.Parse\<close>: an error, the end of the flags, or the arguments left.\<close>

definition parse_one ::
  "(bytes \<Rightarrow> int option) \<Rightarrow> bytes list \<Rightarrow> flag_state \<Rightarrow> (flag_error, (bytes list \<times> flag_state) option) outcome" where
  "parse_one dur args st =
     (case args of
        [] \<Rightarrow> Inr None
      | s # rest \<Rightarrow>
          (case split_flag s of
             Inl e \<Rightarrow> Inl e
           | Inr None \<Rightarrow> Inr None
           | Inr (Some (name, attached)) \<Rightarrow>
               (case flag_kind_of name of
                  None \<Rightarrow> Inl (if name = ''help'' \<or> name = ''h'' then HelpRequested else NotDefined name)
                | Some kind \<Rightarrow>
                    (case flag_value kind name attached rest of
                       Inl e \<Rightarrow> Inl e
                     | Inr (v, rest') \<Rightarrow>
                         (case set_flag dur kind name v st of
                            None \<Rightarrow> Inl (InvalidValue name v)
                          | Some st' \<Rightarrow> Inr (Some (rest', st')))))))"

lemma parse_one_next:
  assumes "parse_one dur args st = Inr (Some (args', st'))"
  shows "length args' < length args \<and> (\<exists>kind name v. set_flag dur kind name v st = Some st')"
proof -
  have "length as < Suc (length rest)" if "flag_value kind name attached rest = Inr (v, as)"
    for kind name attached rest v as
    using that by (auto simp: flag_value_def split: option.splits if_splits list.splits)
  then show ?thesis
    using assms by (fastforce simp: parse_one_def split: list.splits sum.splits option.splits prod.splits)
qed

function parse_flags :: "(bytes \<Rightarrow> int option) \<Rightarrow> bytes list \<Rightarrow> flag_state \<Rightarrow> flag_error option \<times> flag_state" where
  "parse_flags dur args st =
     (case parse_one dur args st of
        Inl e \<Rightarrow> (Some e, st)
      | Inr None \<Rightarrow> (None, st)
      | Inr (Some (args', st')) \<Rightarrow> parse_flags dur args' st')"
  by pat_completeness auto
termination
  by (relation "measure (\<lambda>(dur, args, st). length args)") (auto dest: parse_one_next)

declare parse_flags.simps [simp del]

section \<open>The command line\<close>

datatype config_error =
    FlagError flag_error
  | InvalidLogFormat bytes
  | ClientsRequired
  | InvalidStickyMode bytes

definition proxy_entries :: "bytes \<Rightarrow> bytes list" where
  "proxy_entries s = filter (\<lambda>e. e \<noteq> []) (map trim_space (split_on (CHR '','') s))"

text \<open>\<open>ParseArgs\<close>: the configuration is returned in the error case too, as far as it got.\<close>

definition parse_args :: "(bytes \<Rightarrow> int option) \<Rightarrow> bytes list \<Rightarrow> config \<times> config_error option" where
  "parse_args dur args =
     (case parse_flags dur args initial_flags of
        (Some e, st) \<Rightarrow> (fl_cfg st, Some (FlagError e))
      | (None, st) \<Rightarrow>
          let cfg = fl_cfg st in
          if cf_log_format cfg \<noteq> ''text'' \<and> cf_log_format cfg \<noteq> ''json''
          then (cfg, Some (InvalidLogFormat (cf_log_format cfg)))
          else let cfg1 = cfg\<lparr>cf_trusted_proxies := cf_trusted_proxies cfg @ proxy_entries (fl_trusted st)\<rparr> in
            if cf_clients_path cfg1 = [] then (cfg1, Some ClientsRequired)
            else if fl_sticky st = StickyLB \<or> fl_sticky st = StickyRedis \<or> fl_sticky st = StickyNone
            then (cfg1\<lparr>cf_sticky_mode := fl_sticky st\<rparr>, None)
            else (cfg1, Some (InvalidStickyMode (fl_sticky st))))"

text \<open>\<open>main\<close>: what a command line makes the program do.\<close>

datatype command = PrintVersion | IssueUsage | IssueTokenFor bytes | Serve config | Fatal config_error

definition main_command :: "(bytes \<Rightarrow> int option) \<Rightarrow> bytes list \<Rightarrow> command" where
  "main_command dur args =
     (if args \<noteq> [] \<and> hd args \<in> {''version'', ''--version'', ''-version''} then PrintVersion
      else if args \<noteq> [] \<and> hd args = ''issue-token'' then
        (if length args \<noteq> 2 \<or> args ! 1 = [] then IssueUsage else IssueTokenFor (args ! 1))
      else case parse_args dur args of
        (cfg, None) \<Rightarrow> Serve cfg
      | (cfg, Some e) \<Rightarrow> Fatal e)"

lemma main_command_serves: "main_command dur args = Serve cfg \<Longrightarrow> parse_args dur args = (cfg, None)"
  unfolding main_command_def
  by (cases "parse_args dur args"; cases "snd (parse_args dur args)"; simp split: if_split_asm)

section \<open>Properties\<close>

definition config_ok :: "config \<Rightarrow> bool" where
  "config_ok cfg \<longleftrightarrow>
     cf_sticky_mode cfg \<in> {StickyLB, StickyRedis, StickyNone} \<and> cf_log_format cfg \<in> {''text'', ''json''}
     \<and> cf_clients_path cfg \<noteq> []
     \<and> list_all (\<lambda>e. e \<noteq> [] \<and> trim_space e = e) (cf_trusted_proxies cfg)"

text \<open>What every assignment keeps, the parsing keeps.\<close>

lemma parse_flags_keeps:
  assumes "parse_flags dur args st = (r, st')" and "I st"
    and "\<And>d kind name v s s'. I s \<Longrightarrow> set_flag d kind name v s = Some s' \<Longrightarrow> I s'"
  shows "I st'"
  using assms(1,2)
proof (induction dur args st rule: parse_flags.induct)
  case (1 dur args st)
  show ?case
  proof (cases "parse_one dur args st")
    case (Inl e)
    with "1.prems" show ?thesis by (simp add: parse_flags.simps [of dur args st])
  next
    case (Inr o1)
    show ?thesis
    proof (cases o1)
      case None
      with "1.prems" Inr show ?thesis by (simp add: parse_flags.simps [of dur args st])
    next
      case (Some p)
      obtain as s1 where p: "p = (as, s1)" by force
      obtain kind name v where "set_flag dur kind name v st = Some s1"
        using parse_one_next [of dur args st as s1] Inr Some p by auto
      then have "I s1" by (rule assms(3) [OF "1.prems"(2)])
      then show ?thesis
        using "1.IH" [OF Inr Some, of as s1] "1.prems"(1) Inr Some p
        by (simp add: parse_flags.simps [of dur args st])
    qed
  qed
qed

lemma set_string_trusted: "cf_trusted_proxies (fl_cfg (set_string n v st)) = cf_trusted_proxies (fl_cfg st)"
  by (simp add: set_string_def set_cfg_def)

lemma set_flag_keeps_trusted:
  "set_flag dur kind name v st = Some st' \<Longrightarrow>
     cf_trusted_proxies (fl_cfg st') = cf_trusted_proxies (fl_cfg st)"
  by (cases kind) (auto simp: set_flag_def set_string_trusted set_duration_def set_cfg_def)

lemma parse_flags_keeps_trusted:
  "parse_flags dur args st = (r, st') \<Longrightarrow> cf_trusted_proxies (fl_cfg st') = cf_trusted_proxies (fl_cfg st)"
  by (erule parse_flags_keeps [where I = "\<lambda>s. cf_trusted_proxies (fl_cfg s) = cf_trusted_proxies (fl_cfg st)"])
    (simp_all add: set_flag_keeps_trusted)

lemma proxy_entries_ok: "list_all (\<lambda>e. e \<noteq> [] \<and> trim_space e = e) (proxy_entries s)"
  by (auto simp: proxy_entries_def list_all_iff)

lemma parse_args_config_ok:
  assumes "parse_args dur args = (cfg, None)"
  shows "config_ok cfg"
proof -
  obtain r st where p: "parse_flags dur args initial_flags = (r, st)" by force
  have "cf_trusted_proxies (fl_cfg st) = []"
    using parse_flags_keeps_trusted [OF p] by (simp add: initial_flags_def default_config_def)
  with assms p show ?thesis
    by (auto simp: parse_args_def config_ok_def Let_def proxy_entries_ok split: option.splits if_splits)
qed

text \<open>Property C39: a configuration the program starts with is valid: a known sticky mode and log format, a
  client registry, and trusted proxies without blanks, whatever the command line.\<close>

theorem parse_args_ok:
  assumes "parse_args dur args = (cfg, None)"
  shows "config_ok cfg"
  using assms by (rule parse_args_config_ok)

theorem parse_args_ok_witness:
  "config_ok (fst (parse_args (\<lambda>d. None) [''--sticky-mode=redis'', ''-trusted-proxies'', '' ::1 ,'']))
   \<and> cf_trusted_proxies (fst (parse_args (\<lambda>d. None)
       [''--sticky-mode=redis'', ''-trusted-proxies'', '' ::1 ,''])) = [''::1'']"
proof -
  let ?r = "parse_args (\<lambda>d. None) [''--sticky-mode=redis'', ''-trusted-proxies'', '' ::1 ,'']"
  have "snd ?r = None" "cf_trusted_proxies (fst ?r) = [''::1'']" by code_simp+
  moreover from this(1) have "?r = (fst ?r, None)" by (simp only: prod_eq_iff fst_conv snd_conv)
  ultimately show ?thesis using parse_args_ok by blast
qed
lemma flag_name_shape:
  assumes "flag_kind_of name = Some kind"
  shows "name \<noteq> [] \<and> hd name \<noteq> CHR ''-'' \<and> CHR ''='' \<notin> set name \<and> tl name \<noteq> []"
proof -
  have "list_all (\<lambda>n. n \<noteq> [] \<and> hd n \<noteq> CHR ''-'' \<and> CHR ''='' \<notin> set n \<and> tl n \<noteq> [])
      (string_flags @ ''access-log'' # duration_flags)" by code_simp
  moreover have "name \<in> set (string_flags @ ''access-log'' # duration_flags)"
    using assms by (simp add: flag_kind_of_def split: if_splits)
  ultimately show ?thesis by (auto simp only: list_all_iff)
qed

text \<open>The two spellings of a flag with a value, \<open>--name value\<close> and \<open>--name=value\<close>, with one
  dash or two, have the same effect.\<close>

theorem flag_spellings_agree:
  assumes "flag_kind_of name = Some kind" and "kind \<noteq> BoolFlag"
  shows "parse_flags dur ((''--'' @ name @ ''='' @ v) # args) st = parse_flags dur ((''--'' @ name) # v # args) st
    \<and> parse_flags dur ((''-'' @ name @ ''='' @ v) # args) st = parse_flags dur ((''--'' @ name) # v # args) st"
proof -
  have n: "name \<noteq> []" "hd name \<noteq> CHR ''-''" "CHR ''='' \<notin> set name" "tl name \<noteq> []"
    using assms(1) flag_name_shape [of name] by auto
  then obtain c cs where cs: "name = c # cs" "cs \<noteq> []" by (cases name) auto
  have cut: "cut_on (CHR ''='') (cs @ CHR ''='' # v) = Some (cs, v)" "cut_on (CHR ''='') cs = None"
    and neq: "c \<noteq> CHR ''-''" "c \<noteq> CHR ''=''"
    using n cs by (auto simp: cut_on_Some cut_on_None)
  have sp: "split_flag (''--'' @ name @ ''='' @ v) = Inr (Some (name, Some v))"
    "split_flag (''-'' @ name @ ''='' @ v) = Inr (Some (name, Some v))"
    "split_flag (''--'' @ name) = Inr (Some (name, None))"
    using cut neq cs by (simp_all add: split_flag_def Let_def)
  have "parse_one dur ((''--'' @ name @ ''='' @ v) # args) st = parse_one dur ((''--'' @ name) # v # args) st"
    "parse_one dur ((''-'' @ name @ ''='' @ v) # args) st = parse_one dur ((''--'' @ name) # v # args) st"
    using assms unfolding parse_one_def list.case sp by (simp_all add: flag_value_def)
  then show ?thesis
    unfolding parse_flags.simps [of dur "(''--'' @ name @ ''='' @ v) # args"]
      parse_flags.simps [of dur "(''-'' @ name @ ''='' @ v) # args"]
      parse_flags.simps [of dur "(''--'' @ name) # v # args"]
    by metis
qed

theorem flag_spellings_agree_witness:
  "parse_flags (\<lambda>d. None) [''--listen=:80''] initial_flags = parse_flags (\<lambda>d. None) [''--listen'', '':80''] initial_flags"
proof -
  have "flag_kind_of ''listen'' = Some StringFlag" by code_simp
  from flag_spellings_agree [OF this, of "\<lambda>d. None" "'':80''" "[]" initial_flags] show ?thesis by simp
qed

text \<open>A boolean flag does not take the next argument: after \<open>--access-log false\<close> the access log
  is on, and every flag that follows is silently ignored.\<close>

theorem bool_flag_stops_parsing:
  "parse_args dur ([''--access-log'', ''false''] @ rest) = (default_config, None)"
proof -
  have "split_flag ''--access-log'' = Inr (Some (''access-log'', None))" "split_flag ''false'' = Inr None"
    "flag_kind_of ''access-log'' = Some BoolFlag" "parse_bool ''true'' = Some True"
    "proxy_entries [] = []" by code_simp+
  then have one: "parse_one dur ([''--access-log'', ''false''] @ rest) initial_flags
      = Inr (Some (''false'' # rest, initial_flags))"
    and two: "parse_one dur (''false'' # rest) initial_flags = Inr None"
    by (simp_all add: parse_one_def flag_value_def set_flag_def set_cfg_def initial_flags_def
        default_config_def)
  have "parse_flags dur ([''--access-log'', ''false''] @ rest) initial_flags = (None, initial_flags)"
    by (subst parse_flags.simps, simp only: one) (simp add: parse_flags.simps two)
  moreover have "proxy_entries [] = []" by code_simp
  ultimately show ?thesis
    by (simp add: parse_args_def initial_flags_def default_config_def Let_def StickyLB_def)
qed

end
