(* ===== verification/Pool_Loader.thy ===== *)
theory Pool_Loader
  imports Pool Watcher
begin

text \<open>
  The loader half of \<open>internal/pool/loader.go\<close>: \<open>NewLoader\<close>, \<open>reload\<close> and the watch loop, as a step
  function over the loop's inputs. The loader satisfies the contract \<open>watched_config\<close>: what it
  publishes is always a validated pool with its defaults.
\<close>

definition pool_reload ::
  "(bytes \<Rightarrow> pool option) \<Rightarrow> bytes option \<Rightarrow> pool loader \<Rightarrow> pool loader \<times> load_error option" where
  "pool_reload unmarshal content l =
     (case load_pool unmarshal content of
        Inl e \<Rightarrow> (l, Some e)
      | Inr p \<Rightarrow> (l\<lparr>ld_active := Some p\<rparr>, None))"

datatype 'e new_error = LoadFailed 'e | WatcherFailed | AddFailed

text \<open>\<open>NewLoader\<close>: \<open>watcher_ok\<close> is whether \<open>fsnotify.NewWatcher\<close> succeeds, \<open>add_ok\<close> whether adding
  a path to it does. When the file cannot be watched the current directory is, its error ignored.\<close>

definition pool_new_loader ::
  "(bytes \<Rightarrow> pool option) \<Rightarrow> bytes option \<Rightarrow> bool \<Rightarrow> (bytes \<Rightarrow> bool) \<Rightarrow> bytes \<Rightarrow>
     (load_error new_error, pool loader) outcome" where
  "pool_new_loader unmarshal content watcher_ok add_ok path =
     (let l = \<lparr>ld_path = path, ld_active = None, ld_watched = None\<rparr> in
      case pool_reload unmarshal content l of
        (_, Some e) \<Rightarrow> Inl (LoadFailed e)
      | (l, None) \<Rightarrow>
          if \<not> watcher_ok then Inl WatcherFailed
          else if add_ok path then Inr (l\<lparr>ld_watched := Some [path]\<rparr>)
          else if add_ok ''.'' then Inr (l\<lparr>ld_watched := Some [''.'']\<rparr>)
          else Inr (l\<lparr>ld_watched := Some []\<rparr>))"

text \<open>One turn of the watch loop; \<open>has_cb\<close> is whether \<open>onError\<close> is not nil.\<close>

definition pool_watch_step ::
  "(bytes \<Rightarrow> pool option) \<Rightarrow> bool \<Rightarrow> watch_input \<Rightarrow>
     (pool, load_error) watch_state \<Rightarrow> (pool, load_error) watch_state" where
  "pool_watch_step unmarshal has_cb inp s =
     (if \<not> ws_running s then s
      else case inp of
        DoneClosed \<Rightarrow> s\<lparr>ws_running := False\<rparr>
      | EventsClosed \<Rightarrow> s\<lparr>ws_running := False\<rparr>
      | ErrorsClosed \<Rightarrow> s\<lparr>ws_running := False\<rparr>
      | FsEvent ops content \<Rightarrow>
          (if wants_reload ops then
             (case pool_reload unmarshal content (ws_loader s) of
                (l, None) \<Rightarrow> s\<lparr>ws_loader := l\<rparr>
              | (l, Some e) \<Rightarrow>
                  if has_cb then s\<lparr>ws_loader := l, ws_reports := ws_reports s @ [ReloadFailed e]\<rparr>
                  else s\<lparr>ws_loader := l\<rparr>)
           else s)
      | FsError e \<Rightarrow>
          (if has_cb then s\<lparr>ws_reports := ws_reports s @ [WatchFailed e]\<rparr> else s))"

text \<open>\<open>Watch\<close> starts the loop only when there is a watcher.\<close>

definition pool_watch :: "pool loader \<Rightarrow> (pool, load_error) watch_state" where
  "pool_watch l = \<lparr>ws_loader = l, ws_running = (ld_watched l \<noteq> None), ws_reports = []\<rparr>"

definition pool_active :: "(pool, load_error) watch_state \<Rightarrow> pool option" where
  "pool_active s = ld_active (ws_loader s)"

text \<open>\<open>Close\<close>; \<open>watcher_closes\<close> is whether closing the watcher succeeds.\<close>

definition pool_close :: "bool \<Rightarrow> pool loader \<Rightarrow> bool" where
  "pool_close watcher_closes l = (if ld_watched l \<noteq> None then watcher_closes else True)"

lemmas pool_loader_defs = pool_watch_step_def pool_reload_def pool_active_def pool_watch_def

interpretation pool_cfg: watched_config "pool_watch_step u cb" pool_active active_ok ws_running
  for u cb
  by unfold_locales
    (auto simp: pool_loader_defs dest: load_pool_ok
       split: watch_input.splits sum.splits option.splits if_splits)

lemma new_loader_serving:
  "pool_new_loader u content w add path = Inr l \<Longrightarrow> pool_cfg.serving (pool_watch l)"
  by (auto simp: pool_new_loader_def pool_loader_defs pool_cfg.serving_def Let_def
      dest: load_pool_ok split: sum.splits if_splits)

text \<open>From a successful start, whatever events, file contents, watcher errors and channel
  closings follow, every request sees a pool that passed validation and has its defaults.\<close>

theorem pool_always_valid:
  assumes "pool_new_loader u content w add path = Inr l"
    and "reached (pool_watch_step u cb) (pool_watch l) s"
  shows "\<exists>p. pool_active s = Some p \<and> active_ok p"
  using pool_cfg.reached_serving [OF assms(2) new_loader_serving [OF assms(1)]]
  by (simp add: pool_cfg.serving_def)

text \<open>A file that parses to the example pool when it says \<open>ok\<close> and not at all otherwise.\<close>

definition example_unmarshal :: "bytes \<Rightarrow> pool option" where
  "example_unmarshal b = (if b = ''ok'' then Some example_pool else None)"

definition example_loader :: "pool loader" where
  "example_loader =
     \<lparr>ld_path = ''pool.yaml'', ld_active = Some (apply_defaults example_pool),
      ld_watched = Some [''pool.yaml'']\<rparr>"

lemma example_new_loader:
  "pool_new_loader example_unmarshal (Some ''ok'') True (\<lambda>_. True) ''pool.yaml'' = Inr example_loader"
  by (simp add: pool_new_loader_def pool_reload_def load_pool_def example_unmarshal_def
      example_pool_valid example_loader_def)

theorem pool_always_valid_witness:
  "\<exists>p. pool_active (pool_watch_step example_unmarshal True (FsEvent {Write} (Some ''broken''))
          (pool_watch example_loader)) = Some p \<and> active_ok p"
proof (rule pool_always_valid [OF example_new_loader])
  show "reached (pool_watch_step example_unmarshal True) (pool_watch example_loader)
      (pool_watch_step example_unmarshal True (FsEvent {Write} (Some ''broken''))
        (pool_watch example_loader))"
    by (rule reached.next_input [OF reached.here])
qed

text \<open>A change of the file that does not load leaves the active pool as it was and is
  reported once; a change that loads replaces it by the new pool and reports nothing.\<close>

theorem pool_reload_atomic:
  assumes "ws_running s" and "wants_reload ops"
  shows "case load_pool u content of
           Inl e \<Rightarrow> pool_active (pool_watch_step u True (FsEvent ops content) s) = pool_active s
             \<and> ws_reports (pool_watch_step u True (FsEvent ops content) s)
                 = ws_reports s @ [ReloadFailed e]
         | Inr p \<Rightarrow> pool_active (pool_watch_step u True (FsEvent ops content) s) = Some p
             \<and> ws_reports (pool_watch_step u True (FsEvent ops content) s) = ws_reports s"
  using assms by (simp add: pool_loader_defs split: sum.splits)

theorem pool_reload_atomic_witness:
  "pool_active (pool_watch_step example_unmarshal True (FsEvent {Write} (Some ''broken''))
     (pool_watch example_loader)) = Some (apply_defaults example_pool)"
proof -
  have run: "ws_running (pool_watch example_loader)" and ops: "wants_reload {Write}"
    by (simp_all add: pool_watch_def example_loader_def wants_reload_def)
  have "load_pool example_unmarshal (Some ''broken'') = Inl ParseError"
    by (simp add: load_pool_def example_unmarshal_def)
  with pool_reload_atomic [OF run ops, of example_unmarshal "Some ''broken''"] show ?thesis
    by (simp add: pool_active_def pool_watch_def example_loader_def)
qed

end
