(* ===== verification/App.thy ===== *)
theory App
  imports Middleware Config Pool_Loader
begin

text \<open>
  \<open>internal/app/app.go\<close>: the components wired together. \<open>app_new\<close> is \<open>New\<close>, \<open>proxy_chain\<close> the handler
  behind \<open>/*\<close>, \<open>app_handler\<close> the router with its local answers, \<open>app_close\<close> the shutdown. The chi
  router is not part of the program: it is an argument that chooses a route of the table, with its
  documented behaviour as \<open>mux_ok\<close>.
\<close>

section \<open>Start and shutdown\<close>

datatype startup_error =
    BadTrustedProxies resolver_error
  | PoolUnusable "load_error new_error"
  | ClientsUnusable client_new_error

text \<open>The running program: its configuration, the two watchers' states, the trusted proxies, the Redis
  client, whether \<open>done\<close> has been closed, the logger of its middleware and the time a shutdown may
  take.\<close>

datatype log_handler = JsonHandler | TextHandler

record 'w app =
  ap_cfg :: config
  ap_resolver :: resolver
  ap_pool :: "(pool, load_error) watch_state"
  ap_clients :: "(registry, client_load_error) watch_state"
  ap_store :: "'w store"
  ap_done :: bool
  ap_logger :: log_handler
  ap_shutdown :: int
  ap_metrics :: metric_log             \<comment> \<open>what the start and the two watchers have counted\<close>

text \<open>\<open>newLogger\<close>: both handlers write to standard output from level Info on.\<close>

definition new_logger :: "config \<Rightarrow> log_handler" where
  "new_logger cfg = (if cf_log_format cfg = ''json'' then JsonHandler else TextHandler)"

text \<open>A URL that does not parse disables Redis; the empty URL does without it.\<close>

definition connect_store :: "(bytes \<Rightarrow> (unit, 'w store) outcome) \<Rightarrow> bytes \<Rightarrow> 'w store" where
  "connect_store redis_new url =
     (if url \<noteq> [] then (case redis_new url of Inl e \<Rightarrow> None | Inr st \<Rightarrow> st) else None)"

definition app_new ::
  "config \<Rightarrow> (load_error new_error, pool loader) outcome
     \<Rightarrow> (client_new_error, registry loader) outcome
     \<Rightarrow> (bytes \<Rightarrow> (unit, 'w store) outcome)
     \<Rightarrow> (startup_error, 'w app) outcome" where
  "app_new cfg pool_loaded clients_loaded redis_new =
     (case new_resolver (cf_trusted_proxies cfg) of
        Inl e \<Rightarrow> Inl (BadTrustedProxies e)
      | Inr r \<Rightarrow>
          (case pool_loaded of
             Inl e \<Rightarrow> Inl (PoolUnusable e)
           | Inr l \<Rightarrow>
               (case clients_loaded of
                  Inl e \<Rightarrow> Inl (ClientsUnusable e)
                | Inr c \<Rightarrow>
                    Inr \<lparr>ap_cfg = cfg, ap_resolver = r, ap_pool = pool_watch l,
                          ap_clients = client_watch c,
                          ap_store = connect_store redis_new (cf_redis_url cfg), ap_done = False,
                          ap_logger = new_logger cfg, ap_shutdown = 5 * second,
                          ap_metrics = [ConfigReloads ''success'']\<rparr>)))"

text \<open>The callback both watchers are given: every call counts one failed reload (the log line is not
  modelled).\<close>

definition on_error :: "'e report \<Rightarrow> metric_log \<Rightarrow> metric_log" where
  "on_error e ms = ms @ [ConfigReloads ''error'']"

text \<open>What a step of a watch loop reported: the calls of the callback it made.\<close>

definition new_reports :: "('a, 'e) watch_state \<Rightarrow> ('a, 'e) watch_state \<Rightarrow> 'e report list" where
  "new_reports s s' = drop (length (ws_reports s)) (ws_reports s')"

text \<open>An input of one of the two watchers. Receiving from \<open>done\<close> only succeeds once it is closed.\<close>

datatype app_input = PoolInput watch_input | ClientInput watch_input

definition app_step ::
  "(bytes \<Rightarrow> pool option) \<Rightarrow> (bytes \<Rightarrow> client list option) \<Rightarrow> app_input \<Rightarrow> 'w app \<Rightarrow> 'w app" where
  "app_step upool uclients inp a =
     (case inp of
        PoolInput i \<Rightarrow> if i = DoneClosed \<and> \<not> ap_done a then a
          else let s = pool_watch_step upool True i (ap_pool a) in
            a\<lparr>ap_pool := s, ap_metrics := fold on_error (new_reports (ap_pool a) s) (ap_metrics a)\<rparr>
      | ClientInput i \<Rightarrow> if i = DoneClosed \<and> \<not> ap_done a then a
          else let s = client_watch_step uclients True i (ap_clients a) in
            a\<lparr>ap_clients := s, ap_metrics := fold on_error (new_reports (ap_clients a) s) (ap_metrics a)\<rparr>)"

text \<open>\<open>Close\<close>: closing \<open>done\<close> a second time would panic, so it is guarded. The goroutines of the watchers end
  when they next receive: a pending file event may still win against \<open>done\<close>, or against the channels that
  closing the two file watchers closes. The result is that of
  closing Redis.\<close>

definition app_close :: "'w app \<Rightarrow> 'w \<Rightarrow> (bool \<times> 'w app) \<times> 'w" where
  "app_close a w =
     (let a1 = (if ap_done a then a else a\<lparr>ap_done := True\<rparr>) in
      case store_close (ap_store a) w of (ok, w') \<Rightarrow> ((ok, a1), w'))"

section \<open>Handlers\<close>

text \<open>What is outside the program while it serves.\<close>

record 'w env =
  en_do :: "up_request \<Rightarrow> 'w \<Rightarrow> up_response option \<times> 'w"
  en_intn :: "int \<Rightarrow> 'w \<Rightarrow> int \<times> 'w"
  en_getenv :: "bytes \<Rightarrow> 'w \<Rightarrow> bytes"
  en_read_file :: "bytes \<Rightarrow> 'w \<Rightarrow> bytes option"
  en_conn :: "'w conn"

definition pool_handler :: "'w env \<Rightarrow> 'w app \<Rightarrow> 'w handler" where
  "pool_handler env a =
     new_handler (pool_active (ap_pool a)) (ap_store a) (cf_sticky_mode (ap_cfg a))
       (cf_upstream_timeout (ap_cfg a)) (en_do env) (en_intn env) (en_getenv env) (en_read_file env)
       (en_conn env)"

definition guarded :: "'w env \<Rightarrow> 'w app \<Rightarrow> 'w http_handler" where
  "guarded env a = auth (en_conn env) (client_active (ap_clients a)) (serve_http (pool_handler env a))"

definition proxy_chain :: "'w env \<Rightarrow> 'w app \<Rightarrow> 'w http_handler" where
  "proxy_chain env a =
     real_ip (Some (ap_resolver a))
       (if cf_access_log (ap_cfg a) then access_log (guarded env a) else guarded env a)"

declare real_ip_def [layer_defs] proxy_chain_def [layer_defs]

definition hello :: "'w conn \<Rightarrow> 'w http_handler" where
  "hello conn rq st =
     (True, snd (write_body conn (''{'' @ quote @ ''ok'' @ quote @ '':true}'')
        (emit [HSet ''Content-Type'' ''application/json''] st)))"

definition health :: "'w conn \<Rightarrow> 'w http_handler" where
  "health conn rq st =
     (True, snd (write_body conn ''ok''
        (emit [HSet ''Content-Type'' ''text/plain; charset=utf-8''] st)))"

text \<open>The routes: a method, \<open>None\<close> for any, and a pattern.\<close>

type_synonym route = "bytes option \<times> bytes"

definition routes :: "route list" where
  "routes = [(None, ''/api/hello''), (Some ''GET'', ''/health''), (None, ''/*'')]"

text \<open>\<open>mux\<close> chooses a route for a method and a path; \<open>fallback\<close> is the router's own answer when there is
  none.\<close>

definition app_handler ::
  "(route list \<Rightarrow> bytes \<Rightarrow> bytes \<Rightarrow> nat option) \<Rightarrow> 'w http_handler \<Rightarrow> 'w env \<Rightarrow> 'w app \<Rightarrow> 'w http_handler" where
  "app_handler mux fallback env a rq st =
     (case mux routes (rq_method rq) (rq_path rq) of
        None \<Rightarrow> fallback rq st
      | Some i \<Rightarrow>
          if i = 0 then hello (en_conn env) rq st
          else if i = 1 then health (en_conn env) rq st
          else proxy_chain env a rq st)"

text \<open>Documented behaviour of the router on this table: a route is only chosen for a path and a method
  it matches, and an exact path before the wildcard.\<close>

definition route_matches :: "route \<Rightarrow> bytes \<Rightarrow> bytes \<Rightarrow> bool" where
  "route_matches r verb path \<longleftrightarrow>
     (fst r = None \<or> fst r = Some verb) \<and> (snd r = path \<or> snd r = ''/*'' \<and> has_prefix ''/'' path)"

definition mux_ok :: "(route list \<Rightarrow> bytes \<Rightarrow> bytes \<Rightarrow> nat option) \<Rightarrow> bool" where
  "mux_ok mux \<longleftrightarrow>
     (\<forall>verb path. case mux routes verb path of
        Some i \<Rightarrow> i < length routes \<and> route_matches (routes ! i) verb path
          \<and> (\<forall>j < i. \<not> route_matches (routes ! j) verb path)
      | None \<Rightarrow> \<forall>r \<in> set routes. \<not> route_matches r verb path)"

text \<open>A router that can be run: the first route that matches.\<close>

fun first_route :: "nat \<Rightarrow> route list \<Rightarrow> bytes \<Rightarrow> bytes \<Rightarrow> nat option" where
  "first_route i [] verb path = None"
| "first_route i (r # rs) verb path =
     (if route_matches r verb path then Some i else first_route (Suc i) rs verb path)"

definition demo_mux :: "route list \<Rightarrow> bytes \<Rightarrow> bytes \<Rightarrow> nat option" where
  "demo_mux rs verb path = first_route 0 rs verb path"

lemma demo_mux_ok: "mux_ok demo_mux"
  by (auto simp: mux_ok_def demo_mux_def routes_def nth_Cons' less_Suc_eq)

section \<open>Routing\<close>

lemma route_matches_routes:
  "route_matches (None, ''/api/hello'') verb path \<longleftrightarrow> path = ''/api/hello''"
  "route_matches (Some ''GET'', ''/health'') verb path \<longleftrightarrow> verb = ''GET'' \<and> path = ''/health''"
  "route_matches (None, ''/*'') verb path \<longleftrightarrow> has_prefix ''/'' path"
proof -
  have ne: "(''/api/hello'' = ''/*'') = False" "(''/health'' = ''/*'') = False" by simp_all
  show "route_matches (None, ''/api/hello'') verb path \<longleftrightarrow> path = ''/api/hello''"
    "route_matches (Some ''GET'', ''/health'') verb path \<longleftrightarrow> verb = ''GET'' \<and> path = ''/health''"
    unfolding route_matches_def fst_conv snd_conv ne by blast+
  have "has_prefix ''/'' ''/*''" by simp
  then show "route_matches (None, ''/*'') verb path \<longleftrightarrow> has_prefix ''/'' path"
    unfolding route_matches_def fst_conv snd_conv by blast
qed

lemma mux_choice:
  assumes "mux_ok mux"
  shows "mux routes verb path =
    (if path = ''/api/hello'' then Some 0
     else if verb = ''GET'' \<and> path = ''/health'' then Some 1
     else if has_prefix ''/'' path then Some 2
     else None)"
proof -
  note m = assms [unfolded mux_ok_def, THEN spec, THEN spec, of verb path]
  show ?thesis
proof (cases "mux routes verb path")
  case None
  then have "\<forall>r \<in> set routes. \<not> route_matches r verb path"
    using m by simp
  then have "\<not> route_matches (None, ''/api/hello'') verb path
      \<and> \<not> route_matches (Some ''GET'', ''/health'') verb path \<and> \<not> route_matches (None, ''/*'') verb path"
    unfolding routes_def list.set by blast
  then have n: "(path = ''/api/hello'') = False" "(verb = ''GET'' \<and> path = ''/health'') = False"
    "has_prefix ''/'' path = False"
    unfolding route_matches_routes by blast+
  show ?thesis unfolding n if_False by (rule None)
next
  case (Some i)
  then have i: "i < length routes" "route_matches (routes ! i) verb path"
      "\<forall>j < i. \<not> route_matches (routes ! j) verb path"
    using m by simp_all
  have "i = 0 \<or> i = 1 \<or> i = 2" using i(1) by (auto simp: routes_def)
  then show ?thesis
  proof (elim disjE)
    assume "i = 0"
    then have "path = ''/api/hello''" using i(2) by (simp add: routes_def route_matches_routes)
    then show ?thesis using Some \<open>i = 0\<close> by simp
  next
    assume i1: "i = 1"
    then have "verb = ''GET''" "path = ''/health''" using i(2) by (simp_all add: routes_def route_matches_routes)
    moreover from this have "path \<noteq> ''/api/hello''" by simp
    ultimately show ?thesis using Some i1 by simp
  next
    assume i2: "i = 2"
    then have "has_prefix ''/'' path" using i(2) by (simp add: routes_def route_matches_routes)
    moreover have "path \<noteq> ''/api/hello''" "\<not> (verb = ''GET'' \<and> path = ''/health'')"
      using i(3) i2 by (auto simp: routes_def route_matches_routes dest: spec [of _ 0] spec [of _ 1])
    ultimately show ?thesis using Some i2 by simp
  qed
qed
qed

text \<open>\<open>/api/hello\<close> and \<open>GET /health\<close> are answered locally and everything else goes through the
  chain of layers: no other path and no other method bypasses it.\<close>

theorem app_routing:
  assumes "mux_ok mux"
  shows "app_handler mux fallback env a rq st =
    (if rq_path rq = ''/api/hello'' then hello (en_conn env) rq st
     else if rq_method rq = ''GET'' \<and> rq_path rq = ''/health'' then health (en_conn env) rq st
     else if has_prefix ''/'' (rq_path rq) then proxy_chain env a rq st
     else fallback rq st)"
  unfolding app_handler_def mux_choice [OF assms] by simp

theorem app_routing_witness:
  "\<forall>fallback env a st. app_handler demo_mux fallback env a (demo_request\<lparr>rq_path := ''/health''\<rparr>) st
     = proxy_chain env a (demo_request\<lparr>rq_path := ''/health''\<rparr>) st"
  unfolding app_routing [OF demo_mux_ok] by (simp add: demo_request_def)

section \<open>An example\<close>

definition demo_env :: "'w env" where
  "demo_env = \<lparr>en_do = demo_do, en_intn = (\<lambda>n w. (0, w)), en_getenv = (\<lambda>v w. ''k''),
     en_read_file = (\<lambda>f w. None), en_conn = demo_conn\<rparr>"

definition demo_pool_loader :: "pool loader" where
  "demo_pool_loader = \<lparr>ld_path = ''pool.yaml'',
     ld_active = Some \<lparr>p_members = [demo_member ''a'', demo_member ''b'']\<rparr>,
     ld_watched = Some [''pool.yaml'']\<rparr>"

definition demo_clients_loader :: "registry loader" where
  "demo_clients_loader = \<lparr>ld_path = ''clients.yaml'', ld_active = Some demo_registry,
     ld_watched = Some [''clients.yaml'']\<rparr>"

definition demo_app :: "'w app" where
  "demo_app = \<lparr>ap_cfg = default_config\<lparr>cf_sticky_mode := ''lb'', cf_upstream_timeout := 0\<rparr>,
     ap_resolver = [], ap_pool = pool_watch demo_pool_loader,
     ap_clients = client_watch demo_clients_loader, ap_store = None, ap_done = False,
     ap_logger = TextHandler, ap_shutdown = 5 * second, ap_metrics = [ConfigReloads ''success'']\<rparr>"

lemma demo_app_registry: "client_active (ap_clients demo_app) = Some demo_registry"
  by (simp add: demo_app_def client_active_def client_watch_def demo_clients_loader_def)

lemma demo_pool_handler: "pool_handler demo_env demo_app = demo_handler None"
  by (simp add: pool_handler_def demo_env_def demo_app_def demo_handler_def pool_active_def
      pool_watch_def demo_pool_loader_def)

lemma demo_env_conn: "en_conn demo_env = demo_conn"
  by (simp add: demo_env_def)

section \<open>The chain\<close>

lemma guarded_answering: "answering (guarded env a)"
  unfolding guarded_def by (rule auth_layer.keeps_answering [OF serving.is_answering])

lemma chain_answers:
  assumes "proxy_chain env a rq st = (True, st')"
  shows "\<exists>es. rt_out st' = rt_out st @ es \<and> answers es"
proof -
  have "answering (proxy_chain env a)"
    unfolding proxy_chain_def
    by (cases "cf_access_log (ap_cfg a)")
      (simp_all add: ip_layer.keeps_answering log_layer.keeps_answering guarded_answering)
  with assms show ?thesis unfolding answering_def by blast
qed

text \<open>Through every layer of the chain, with or without the access log, a request the chain
  returns from has been answered exactly once.\<close>

theorem chain_answers_once:
  assumes "proxy_chain env a rq st = (True, st')"
  shows "\<exists>es. rt_out st' = rt_out st @ es \<and> answers es"
  using assms by (rule chain_answers)

theorem chain_answers_once_witness:
  "\<exists>es. rt_out (snd (proxy_chain demo_env demo_app demo_request (start_state ()))) = es \<and> answers es"
proof -
  let ?run = "proxy_chain demo_env demo_app demo_request (start_state ())"
  have none: "presented_token (rq_header demo_request) = []" by code_simp
  obtain code reason ty msg attrs where
    rej: "\<And>s. guarded demo_env demo_app demo_request s =
      (True, reject demo_conn demo_request code reason ty msg attrs (s :: unit rstate))"
    using auth_rejects [of "Some demo_registry" demo_request demo_conn] demo_registry_indexed none
    by (metis admits_def demo_app_registry demo_env_conn guarded_def option.inject)
  have "fst ?run"
    by (simp add: layer_defs access_log_def rej Let_def)
  then have "?run = (True, snd ?run)" by (simp add: prod_eq_iff)
  from chain_answers_once [OF this] show ?thesis by (simp add: start_state_def)
qed

section \<open>Only a registered token reaches an upstream\<close>

text \<open>Property C5: no request without the token of an enabled client can cause an upstream request: for every
  route, the outcome is the same whatever the upstreams would have done.\<close>

theorem upstream_needs_token:
  assumes ok: "client_active (ap_clients a) = Some r" "indexed_ok r"
    and none: "\<And>c. \<not> admits r (presented_token (rq_header rq)) c"
  shows "app_handler mux fallback (env\<lparr>en_do := d1\<rparr>) a rq st = app_handler mux fallback (env\<lparr>en_do := d2\<rparr>) a rq st"
proof -
  obtain code reason ty msg attrs where
    rej: "\<And>(handler :: 'a http_handler) s. auth (en_conn env) (Some r) handler rq s =
      (True, reject (en_conn env) rq code reason ty msg attrs s)"
    using auth_rejects [of "Some r" rq "en_conn env"] ok(2) none by (metis option.inject)
  have "guarded (env\<lparr>en_do := d\<rparr>) a rq s = (True, reject (en_conn env) rq code reason ty msg attrs s)" for d s
    by (simp add: guarded_def ok(1) rej)
  then have "proxy_chain (env\<lparr>en_do := d1\<rparr>) a rq st = proxy_chain (env\<lparr>en_do := d2\<rparr>) a rq st"
    by (simp add: layer_defs access_log_def)
  then show ?thesis by (simp add: app_handler_def split: option.splits)
qed

theorem upstream_needs_token_witness:
  "\<forall>fallback. app_handler demo_mux fallback (demo_env\<lparr>en_do := demo_do\<rparr>) demo_app demo_request (start_state ())
     = app_handler demo_mux fallback (demo_env\<lparr>en_do := \<lambda>up w. (None, w)\<rparr>) demo_app demo_request
         (start_state ())"
proof (intro allI, rule upstream_needs_token [OF demo_app_registry demo_registry_indexed])
  fix c
  have "presented_token (rq_header demo_request) = []" by code_simp
  then show "\<not> admits demo_registry (presented_token (rq_header demo_request)) c"
    by (simp add: admits_def)
qed

section \<open>Reloads\<close>

lemma fold_on_error: "fold on_error es ms = ms @ replicate (length es) (ConfigReloads ''error'')"
  by (induction es arbitrary: ms) (simp_all add: on_error_def replicate_append_same [symmetric])



text \<open>No reload, however it ends, counts a success: the counter stays at the one of the start.\<close>

lemma successes_not_counted:
  assumes "reached (app_step u c) a a'"
  shows "counter (ConfigReloads ''success'') (ap_metrics a') = counter (ConfigReloads ''success'') (ap_metrics a)"
  using assms
proof (induction rule: reached.induct)
  case (next_input s t i)
  have "count_list (replicate n (ConfigReloads ''error'')) (ConfigReloads ''success'') = 0" for n
    by (induction n) simp_all
  with next_input show ?case
    by (cases i) (auto simp: app_step_def Let_def counter_def fold_on_error)
qed simp

section \<open>The started program\<close>

lemma app_reached:
  "reached (app_step u c) a a' \<Longrightarrow>
     reached (pool_watch_step u True) (ap_pool a) (ap_pool a')
     \<and> reached (client_watch_step c True) (ap_clients a) (ap_clients a')
     \<and> ap_cfg a' = ap_cfg a \<and> ap_resolver a' = ap_resolver a \<and> ap_store a' = ap_store a"
proof (induction rule: reached.induct)
  case here
  then show ?case by (simp add: reached.here)
next
  case (next_input s t i)
  then show ?case by (cases i) (auto simp: app_step_def Let_def intro: reached.next_input split: if_splits)
qed

text \<open>Property C16: once started, and whatever happens to its two files, the program always has a valid,
  non-empty pool and a valid, indexed registry, and the trusted proxies it was started with.\<close>

theorem started_app_ready:
  assumes start: "app_new cfg (pool_new_loader up pc pw pa pp) (client_new_loader uc cc cw ca cp) redis
      = Inr a"
    and run: "reached (app_step u c) a a'"
  shows "\<exists>p r. pool_active (ap_pool a') = Some p \<and> active_ok p \<and> p_members p \<noteq> []
    \<and> client_active (ap_clients a') = Some r \<and> indexed_ok r
    \<and> new_resolver (cf_trusted_proxies cfg) = Inr (ap_resolver a')"
proof -
  obtain l cl where l: "pool_new_loader up pc pw pa pp = Inr l" "client_new_loader uc cc cw ca cp = Inr cl"
    and a: "ap_pool a = pool_watch l" "ap_clients a = client_watch cl"
      "new_resolver (cf_trusted_proxies cfg) = Inr (ap_resolver a)"
    using start by (auto simp: app_new_def split: sum.splits)
  have "pool_cfg.serving (ap_pool a')"
    using pool_cfg.reached_serving app_reached [OF run] new_loader_serving [OF l(1)] a(1) by metis
  moreover have "client_cfg.serving (ap_clients a')"
    using client_cfg.reached_serving app_reached [OF run] client_new_loader_serving [OF l(2)] a(2) by metis
  moreover have "p_members p \<noteq> []" if "active_ok p" for p
    using that by (auto simp: active_ok_def pool_ok_def)
  ultimately show ?thesis
    using a(3) app_reached [OF run] by (auto simp: pool_cfg.serving_def client_cfg.serving_def)
qed

definition example_app :: "unit app" where
  "example_app = \<lparr>ap_cfg = default_config, ap_resolver = [], ap_pool = pool_watch example_loader,
     ap_clients = client_watch example_client_loader, ap_store = None, ap_done = False,
     ap_logger = TextHandler, ap_shutdown = 5 * second, ap_metrics = [ConfigReloads ''success'']\<rparr>"

lemma example_app_new:
  "app_new default_config
     (pool_new_loader example_unmarshal (Some ''ok'') True (\<lambda>_. True) ''pool.yaml'')
     (client_new_loader example_clients_unmarshal (Some ''ok'') True (\<lambda>_. True) ''clients.yaml'')
     (\<lambda>url. Inl ()) = Inr example_app"
  by (simp add: app_new_def example_new_loader example_client_new_loader connect_store_def
      default_config_def new_logger_def example_app_def)

theorem started_app_ready_witness:
  "\<exists>p r. pool_active (ap_pool (app_step example_unmarshal example_clients_unmarshal
        (PoolInput (FsEvent {Write} None)) example_app)) = Some p \<and> active_ok p \<and> p_members p \<noteq> []"
  using started_app_ready [OF example_app_new reached.next_input [OF reached.here, of _ _ "PoolInput (FsEvent {Write} None)"]]
  by blast

lemma app_step_done:
  "app_step u c (PoolInput DoneClosed) a = (if ap_done a then a\<lparr>ap_pool := ap_pool a\<lparr>ws_running := False\<rparr>\<rparr> else a)"
  "app_step u c (ClientInput DoneClosed) a =
     (if ap_done a then a\<lparr>ap_clients := ap_clients a\<lparr>ws_running := False\<rparr>\<rparr> else a)"
  by (auto simp: app_step_def pool_watch_step_def client_watch_step_def Let_def new_reports_def)

lemma app_reached_done: "reached (app_step u c) a a' \<Longrightarrow> ap_done a' = ap_done a"
  by (induction rule: reached.induct) (auto simp: app_step_def Let_def split: app_input.splits)

text \<open>\<open>Close\<close> leaves what is served as it is. File events that are already pending may still be
  handled, but once both watchers have seen \<open>done\<close> nothing that happens to the files has any
  influence; closing again closes nothing twice.\<close>

theorem closed_app_frozen:
  assumes "app_close a w = ((ok, a1), w1)" and "reached (app_step u c) a1 a2"
    and "a3 = app_step u c (ClientInput DoneClosed) (app_step u c (PoolInput DoneClosed) a2)"
    and "reached (app_step u c) a3 a4"
  shows "pool_active (ap_pool a1) = pool_active (ap_pool a) \<and> client_active (ap_clients a1) = client_active (ap_clients a)
    \<and> pool_active (ap_pool a4) = pool_active (ap_pool a2)
    \<and> client_active (ap_clients a4) = client_active (ap_clients a2)
    \<and> snd (fst (app_close a4 w1)) = a4"
proof -
  have a1: "ap_done a1" "ap_pool a1 = ap_pool a" "ap_clients a1 = ap_clients a"
    using assms(1) by (auto simp: app_close_def Let_def split: prod.splits if_splits)
  have done2: "ap_done a2" using app_reached_done [OF assms(2)] a1(1) by simp
  then have a3: "ap_done a3" "ap_pool a3 = ap_pool a2\<lparr>ws_running := False\<rparr>"
    "ap_clients a3 = ap_clients a2\<lparr>ws_running := False\<rparr>"
    by (simp_all add: assms(3) app_step_done)
  then have "\<not> ws_running (ap_pool a3)" "\<not> ws_running (ap_clients a3)" by simp_all
  then have "ap_pool a4 = ap_pool a3" "ap_clients a4 = ap_clients a3"
    using app_reached [OF assms(4)] pool_cfg.reached_stopped client_cfg.reached_stopped by blast+
  moreover have "ap_done a4" using app_reached_done [OF assms(4)] a3(1) by simp
  ultimately show ?thesis
    using a1 a3
    by (simp add: pool_active_def client_active_def app_close_def Let_def split: prod.splits)
qed

theorem closed_app_frozen_witness:
  "\<exists>a2 :: unit app. pool_active (ap_pool (app_step (\<lambda>b. None) (\<lambda>b. None) (PoolInput (FsEvent {Write} (Some ''x'')))
     (app_step (\<lambda>b. None) (\<lambda>b. None) (ClientInput DoneClosed) (app_step (\<lambda>b. None) (\<lambda>b. None)
        (PoolInput DoneClosed) a2)))) = pool_active (ap_pool a2) \<and> ap_done a2"
proof -
  obtain ok a1 w1 where c: "app_close (demo_app :: unit app) () = ((ok, a1), w1)"
    by (metis prod.exhaust)
  then have "ap_done a1" by (auto simp: app_close_def Let_def demo_app_def split: prod.splits)
  then show ?thesis
    using closed_app_frozen [OF c reached.here refl reached.next_input [OF reached.here,
        of _ _ "PoolInput (FsEvent {Write} (Some ''x''))"], of "\<lambda>b. None" "\<lambda>b. None"] by blast
qed

section \<open>The client in the log\<close>

text \<open>Property C25: the access log of an authenticated request names the client whose token was presented
  and the address the resolver attributes the request to.\<close>

theorem chain_logs_client:
  assumes r: "client_active (ap_clients a) = Some r" "indexed_ok r"
    and adm: "admits r (presented_token (rq_header rq)) c"
    and log: "cf_access_log (ap_cfg a)" "rq_path rq \<noteq> ''/health''"
    and run: "proxy_chain env a rq st = (True, st')"
  shows "\<exists>status n ua. rt_log st' = rt_log st @ [AccessLine (rq_method rq) (rq_path rq) status n (c_name c)
      (from_request (Some (ap_resolver a)) (rq_header rq) (rq_remote rq)) ua]"
proof -
  let ?ip = "from_request (Some (ap_resolver a)) (rq_header rq) (rq_remote rq)"
  let ?st = "st\<lparr>rt_scope := Some \<lparr>sc_ip = ?ip, sc_client = []\<rparr>\<rparr>"
  have l: "access_log (guarded env a) rq ?st = (True, st')"
    using run log(1) by (simp add: layer_defs)
  obtain st1 status where h: "guarded env a rq (?st\<lparr>rt_out := []\<rparr>) = (True, st1)"
    and st': "st' = st1\<lparr>rt_out := rt_out ?st @ rt_out st1,
        rt_log := rt_log st1 @ [AccessLine (rq_method rq) (rq_path rq) status
          (int (length (rs_body (deliver (rt_out st1))))) (logged_client rq st1) (scope_ip st1)
          (hget (rq_header rq) ''User-Agent'')]\<rparr>"
    using access_log_line [OF guarded_answering log(2) l] by blast
  have "serve_http (pool_handler env a) (authenticated rq (c_name c))
      (tag_scope (c_name c) (?st\<lparr>rt_out := []\<rparr>)) = (True, st1)"
  proof -
    have "auth (en_conn env) (Some r) (serve_http (pool_handler env a)) rq (?st\<lparr>rt_out := []\<rparr>)
        = serve_http (pool_handler env a) (authenticated rq (c_name c))
            (tag_scope (c_name c) (?st\<lparr>rt_out := []\<rparr>))"
      using auth_passes [OF r(2) adm] by blast
    with h show ?thesis by (simp only: guarded_def r(1))
  qed
  from serve_http_quiet [OF this]
  have q: "rt_scope st1 = Some \<lparr>sc_ip = ?ip, sc_client = c_name c\<rparr>" "rt_log st1 = rt_log st"
    by (simp_all add: quiet_def tag_scope_def)
  have "client_ok c" using r(2) adm by (auto simp: admits_def indexed_ok_def registry_ok_def list_all_iff)
  then have "c_name c \<noteq> []" using name_pattern_nonempty by (auto simp: client_ok_def)
  with q show ?thesis unfolding st' by (simp add: logged_client_def scope_ip_def)
qed

theorem chain_logs_client_witness:
  "\<exists>status n ua. rt_log (snd (proxy_chain demo_env demo_app auth_request (start_state ()))) =
     [AccessLine ''POST'' ''/v1'' status n ''maria'' ''10.0.0.1'' ua]"
proof -
  let ?run = "proxy_chain demo_env demo_app auth_request (start_state ())"
  note adm = demo_admits
  have log: "cf_access_log (ap_cfg (demo_app :: unit app))" "rq_path auth_request \<noteq> ''/health''"
    by (simp_all add: demo_app_def default_config_def auth_request_def demo_request_def)
  have ip: "from_request (Some []) (rq_header auth_request) (rq_remote auth_request) = ''10.0.0.1''"
    by code_simp
  let ?st = "(start_state ())\<lparr>rt_scope := Some \<lparr>sc_ip = ''10.0.0.1'', sc_client = []\<rparr>\<rparr>"
  have "fst (serve_http (demo_handler None) (authenticated auth_request ''maria'')
      (tag_scope ''maria'' (?st\<lparr>rt_out := []\<rparr>)))" by code_simp
  moreover have "guarded demo_env demo_app auth_request (?st\<lparr>rt_out := []\<rparr>) =
      serve_http (demo_handler None) (authenticated auth_request ''maria'')
        (tag_scope ''maria'' (?st\<lparr>rt_out := []\<rparr>))"
    using auth_passes [OF demo_registry_indexed adm, THEN conjunct1, of demo_conn "serve_http (demo_handler None)"]
    by (simp only: guarded_def demo_app_registry demo_pool_handler demo_env_conn) (simp add: demo_client_def)
  ultimately have g: "fst (guarded demo_env demo_app auth_request (?st\<lparr>rt_out := []\<rparr>))" by simp
  have "?run = access_log (guarded demo_env demo_app) auth_request ?st"
    using log(1) by (simp add: layer_defs ip demo_app_def)
  then have "fst ?run"
    using g log(2) by (cases "guarded demo_env demo_app auth_request (?st\<lparr>rt_out := []\<rparr>)")
      (simp add: access_log_def Let_def)
  then have "?run = (True, snd ?run)" by (simp add: prod_eq_iff)
  from chain_logs_client [OF demo_app_registry demo_registry_indexed adm log this]
  moreover have "rt_log (start_state ()) = []" "ap_resolver (demo_app :: unit app) = []"
    "rq_method auth_request = ''POST''" "rq_path auth_request = ''/v1''" "c_name demo_client = ''maria''"
    by (simp_all add: start_state_def demo_app_def auth_request_def demo_request_def demo_client_def)
  ultimately show ?thesis by (simp only: ip append_Nil)
qed

end
