(* ===== verification/App_Run.thy ===== *)
theory App_Run
  imports App
begin

text \<open>
  \<open>App.Run\<close> and the end of \<open>main\<close>: two listeners served by two goroutines, the channel they report a
  failure on, and the shutdown that follows a signal or the first failure. The goroutines and the
  \<open>select\<close> interleave freely, so a run is a trace of \<open>run_step\<close>.
\<close>

section \<open>Servers\<close>

text \<open>A goroutine has not called \<open>ListenAndServe\<close> yet, is inside it, is about to send the error it returned,
  or has ended. \<open>sv_closed\<close>: \<open>Shutdown\<close> has been called, which makes \<open>ListenAndServe\<close> return
  \<open>ErrServerClosed\<close>.\<close>

datatype listener = Pending | Listening | Reporting bytes | Ended

record server =
  sv_addr :: bytes
  sv_read_timeout :: int
  sv_write_timeout :: int
  sv_listener :: listener
  sv_closed :: bool

definition proxy_server :: "config \<Rightarrow> server" where
  "proxy_server cfg = \<lparr>sv_addr = cf_listen_addr cfg, sv_read_timeout = cf_read_timeout cfg,
     sv_write_timeout = cf_write_timeout cfg, sv_listener = Pending, sv_closed = False\<rparr>"

text \<open>The write deadline of the proxy's server runs from the end of the request's headers to the last byte of
  the response, whatever the upstream's own timeout is: with the default configuration a stream of more
  than a minute is cut.\<close>

lemma default_write_deadline: "sv_write_timeout (proxy_server default_config) = 60 * second"
  by (simp add: proxy_server_def default_config_def)

definition metrics_server :: "config \<Rightarrow> server" where
  "metrics_server cfg = \<lparr>sv_addr = cf_metrics_addr cfg, sv_read_timeout = 0, sv_write_timeout = 0,
     sv_listener = Pending, sv_closed = False\<rparr>"

datatype which = ProxySrv | MetricsSrv

instantiation which :: enum
begin

definition "enum_which = [ProxySrv, MetricsSrv]"
definition "enum_all_which P \<longleftrightarrow> P ProxySrv \<and> P MetricsSrv"
definition "enum_ex_which P \<longleftrightarrow> P ProxySrv \<or> P MetricsSrv"

instance
proof
  have univ: "(UNIV :: which set) = {ProxySrv, MetricsSrv}" using which.exhaust by blast
  show "UNIV = set (enum_class.enum :: which list)" "distinct (enum_class.enum :: which list)"
    by (simp_all add: univ enum_which_def)
  show "enum_class.enum_all P \<longleftrightarrow> Ball UNIV P" for P :: "which \<Rightarrow> bool"
    by (simp add: univ enum_all_which_def)
  show "enum_class.enum_ex P \<longleftrightarrow> Bex UNIV P" for P :: "which \<Rightarrow> bool"
    by (simp add: univ enum_ex_which_def)
qed

end

text \<open>Where \<open>Run\<close> itself is: at the \<open>select\<close>, past it with the error to return, between the two
  shutdowns, or back.\<close>

datatype phase = Waiting | Selected "bytes option" | ProxyDown "bytes option" | Returned "bytes option"

record run_state =
  rn_proxy :: server
  rn_metrics :: server
  rn_errs :: "bytes list"      \<comment> \<open>\<open>errCh\<close>, oldest first; its capacity is 2\<close>
  rn_cancelled :: bool
  rn_phase :: phase

definition run_start :: "config \<Rightarrow> run_state" where
  "run_start cfg = \<lparr>rn_proxy = proxy_server cfg, rn_metrics = metrics_server cfg, rn_errs = [],
     rn_cancelled = False, rn_phase = Waiting\<rparr>"

definition err_capacity :: nat where "err_capacity = 2"

fun server_of :: "which \<Rightarrow> run_state \<Rightarrow> server" where
  "server_of ProxySrv s = rn_proxy s"
| "server_of MetricsSrv s = rn_metrics s"

fun listener_to :: "which \<Rightarrow> listener \<Rightarrow> run_state \<Rightarrow> run_state" where
  "listener_to ProxySrv l s = s\<lparr>rn_proxy := rn_proxy s\<lparr>sv_listener := l\<rparr>\<rparr>"
| "listener_to MetricsSrv l s = s\<lparr>rn_metrics := rn_metrics s\<lparr>sv_listener := l\<rparr>\<rparr>"

fun shut :: "which \<Rightarrow> run_state \<Rightarrow> run_state" where
  "shut ProxySrv s = s\<lparr>rn_proxy := rn_proxy s\<lparr>sv_closed := True\<rparr>\<rparr>"
| "shut MetricsSrv s = s\<lparr>rn_metrics := rn_metrics s\<lparr>sv_closed := True\<rparr>\<rparr>"

section \<open>Steps\<close>

datatype run_event =
    Serving which          \<comment> \<open>the goroutine enters \<open>ListenAndServe\<close>\<close>
  | ListenFailed which bytes
  | Sent which bytes
  | ServerClosed which     \<comment> \<open>\<open>ErrServerClosed\<close>, which is not reported\<close>
  | Cancelled              \<comment> \<open>a signal cancels the context\<close>
  | SelectDone
  | SelectErr bytes
  | Shutdown which

text \<open>A listener fails when the address cannot be bound or accepting fails, which may still happen, and be
  reported, while the server is being shut down; a full channel would block its goroutine.\<close>

inductive run_step :: "run_state \<Rightarrow> run_event \<Rightarrow> run_state \<Rightarrow> bool" where
  serving: "sv_listener (server_of k s) = Pending \<Longrightarrow> \<not> sv_closed (server_of k s) \<Longrightarrow>
     run_step s (Serving k) (listener_to k Listening s)"
| failing: "sv_listener (server_of k s) = Listening \<Longrightarrow>
     run_step s (ListenFailed k e) (listener_to k (Reporting e) s)"
| sending: "sv_listener (server_of k s) = Reporting e \<Longrightarrow> length (rn_errs s) < err_capacity \<Longrightarrow>
     run_step s (Sent k e) (listener_to k Ended (s\<lparr>rn_errs := rn_errs s @ [e]\<rparr>))"
| closing: "sv_listener (server_of k s) \<in> {Pending, Listening} \<Longrightarrow> sv_closed (server_of k s) \<Longrightarrow>
     run_step s (ServerClosed k) (listener_to k Ended s)"
| cancelling: "\<not> rn_cancelled s \<Longrightarrow> run_step s Cancelled (s\<lparr>rn_cancelled := True\<rparr>)"
| select_done: "rn_phase s = Waiting \<Longrightarrow> rn_cancelled s \<Longrightarrow>
     run_step s SelectDone (s\<lparr>rn_phase := Selected None\<rparr>)"
| select_err: "rn_phase s = Waiting \<Longrightarrow> rn_errs s = e # es \<Longrightarrow>
     run_step s (SelectErr e) (s\<lparr>rn_errs := es, rn_phase := Selected (Some e)\<rparr>)"
| shut_proxy: "rn_phase s = Selected r \<Longrightarrow>
     run_step s (Shutdown ProxySrv) (shut ProxySrv (s\<lparr>rn_phase := ProxyDown r\<rparr>))"
| shut_metrics: "rn_phase s = ProxyDown r \<Longrightarrow>
     run_step s (Shutdown MetricsSrv) (shut MetricsSrv (s\<lparr>rn_phase := Returned r\<rparr>))"

inductive_simps run_step_simps:
  "run_step s (Serving k) t"
  "run_step s (ListenFailed k e) t"
  "run_step s (Sent k e) t"
  "run_step s (ServerClosed k) t"
  "run_step s Cancelled t"
  "run_step s SelectDone t"
  "run_step s (SelectErr e) t"
  "run_step s (Shutdown k) t"

text \<open>The traces of a run, with the state they lead to.\<close>

inductive run_trace :: "config \<Rightarrow> run_event list \<Rightarrow> run_state \<Rightarrow> bool" for cfg where
  started: "run_trace cfg [] (run_start cfg)"
| stepped: "run_trace cfg es s \<Longrightarrow> run_step s e t \<Longrightarrow> run_trace cfg (es @ [e]) t"

text \<open>The steps the program takes by itself, as opposed to a signal and to what the listeners do.\<close>

fun own_step :: "run_event \<Rightarrow> bool" where
  "own_step (Sent _ _) = True"
| "own_step (ServerClosed _) = True"
| "own_step SelectDone = True"
| "own_step (SelectErr _) = True"
| "own_step (Shutdown _) = True"
| "own_step _ = False"

definition stuck :: "run_state \<Rightarrow> bool" where
  "stuck s \<longleftrightarrow> (\<forall>e t. run_step s e t \<longrightarrow> \<not> own_step e)"

section \<open>The two servers\<close>

lemma server_of_simps [simp]:
  "server_of k (s\<lparr>rn_errs := es\<rparr>) = server_of k s"
  "server_of k (s\<lparr>rn_cancelled := c\<rparr>) = server_of k s"
  "server_of k (s\<lparr>rn_phase := p\<rparr>) = server_of k s"
  by (cases k; simp)+

lemma listener_to_simps [simp]:
  "rn_errs (listener_to k l s) = rn_errs s"
  "rn_cancelled (listener_to k l s) = rn_cancelled s"
  "rn_phase (listener_to k l s) = rn_phase s"
  "sv_closed (server_of k' (listener_to k l s)) = sv_closed (server_of k' s)"
  "sv_listener (server_of k' (listener_to k l s)) = (if k' = k then l else sv_listener (server_of k' s))"
  by (cases k; cases k'; simp)+

lemma shut_simps [simp]:
  "rn_errs (shut k s) = rn_errs s"
  "rn_cancelled (shut k s) = rn_cancelled s"
  "rn_phase (shut k s) = rn_phase s"
  "sv_closed (server_of k' (shut k s)) = (k' = k \<or> sv_closed (server_of k' s))"
  "sv_listener (server_of k' (shut k s)) = sv_listener (server_of k' s)"
  by (cases k; cases k'; simp)+

lemma server_of_start [simp]:
  "sv_listener (server_of k (run_start cfg)) = Pending"
  "\<not> sv_closed (server_of k (run_start cfg))"
  by (cases k; simp add: run_start_def proxy_server_def metrics_server_def)+

declare server_of.simps [simp del] listener_to.simps [simp del] shut.simps [simp del]

section \<open>Bounds\<close>

fun listener_rank :: "listener \<Rightarrow> nat" where
  "listener_rank Pending = 3"
| "listener_rank Listening = 2"
| "listener_rank (Reporting _) = 1"
| "listener_rank Ended = 0"

fun phase_rank :: "phase \<Rightarrow> nat" where
  "phase_rank Waiting = 3"
| "phase_rank (Selected _) = 2"
| "phase_rank (ProxyDown _) = 1"
| "phase_rank (Returned _) = 0"

definition run_rank :: "run_state \<Rightarrow> nat" where
  "run_rank s = listener_rank (sv_listener (server_of ProxySrv s))
     + listener_rank (sv_listener (server_of MetricsSrv s)) + phase_rank (rn_phase s) + (if rn_cancelled s then 0 else 1)"

lemma run_step_rank: "run_step s e t \<Longrightarrow> run_rank t < run_rank s"
proof (induction rule: run_step.induct)
  case (serving k s)
  then show ?case by (cases k) (simp_all add: run_rank_def)
next
  case (failing k s e)
  then show ?case by (cases k) (simp_all add: run_rank_def)
next
  case (sending k s e)
  then show ?case by (cases k) (simp_all add: run_rank_def)
next
  case (closing k s)
  then show ?case by (cases k) (auto simp: run_rank_def)
qed (simp_all add: run_rank_def)

lemma run_trace_rank: "run_trace cfg es s \<Longrightarrow> length es + run_rank s \<le> 10"
proof (induction rule: run_trace.induct)
  case started
  then show ?case by (simp add: run_rank_def) (simp add: run_start_def)
next
  case (stepped es s e t)
  then show ?case using run_step_rank [OF stepped(2)] by simp
qed

definition unsent :: "server \<Rightarrow> nat" where
  "unsent sv = (if sv_listener sv = Ended then 0 else 1)"

text \<open>Every goroutine that has not ended has a place in the channel.\<close>

definition room :: "run_state \<Rightarrow> bool" where
  "room s \<longleftrightarrow> length (rn_errs s) + unsent (server_of ProxySrv s)
     + unsent (server_of MetricsSrv s) \<le> err_capacity"

lemma run_step_room: "run_step s e t \<Longrightarrow> room s \<Longrightarrow> room t"
proof (induction rule: run_step.induct)
  case (serving k s)
  then show ?case by (cases k) (simp_all add: room_def unsent_def)
next
  case (failing k s e)
  then show ?case by (cases k) (simp_all add: room_def unsent_def)
next
  case (sending k s e)
  then show ?case by (cases k) (simp_all add: room_def unsent_def)
next
  case (closing k s)
  then show ?case by (cases k) (auto simp: room_def unsent_def)
qed (simp_all add: room_def unsent_def)

lemma run_trace_room: "run_trace cfg es s \<Longrightarrow> room s"
proof (induction rule: run_trace.induct)
  case started
  then show ?case by (simp add: room_def unsent_def err_capacity_def) (simp add: run_start_def)
next
  case (stepped es s e t)
  then show ?case by (blast intro: run_step_room)
qed

lemma room_unsent:
  assumes "room s" and "sv_listener (server_of k s) \<noteq> Ended"
  shows "length (rn_errs s) < err_capacity"
  using assms by (cases k) (auto simp: room_def unsent_def)

text \<open>Neither listener's goroutine ever blocks on reporting its failure: the channel has room for
  it, whatever the other one did and whether or not \<open>Run\<close> still reads it.\<close>

theorem run_report_never_blocks:
  assumes "run_trace cfg es s" and "sv_listener (server_of k s) = Reporting e"
  shows "\<exists>t. run_step s (Sent k e) t \<and> sv_listener (server_of k t) = Ended"
proof -
  have "length (rn_errs s) < err_capacity"
    using room_unsent [OF run_trace_room [OF assms(1)], of k] assms(2) by simp
  then show ?thesis using run_step.sending [OF assms(2)] by fastforce
qed

section \<open>What Run returns\<close>

fun decided :: "phase \<Rightarrow> bytes option option" where
  "decided Waiting = None"
| "decided (Selected r) = Some r"
| "decided (ProxyDown r) = Some r"
| "decided (Returned r) = Some r"

definition failed_with :: "run_event list \<Rightarrow> bytes set" where
  "failed_with es = {e. \<exists>k. ListenFailed k e \<in> set es}"

fun report_of :: "listener \<Rightarrow> bytes set" where
  "report_of (Reporting e) = {e}"
| "report_of _ = {}"

definition unread :: "run_state \<Rightarrow> bytes set" where
  "unread s = set (rn_errs s) \<union> report_of (sv_listener (server_of ProxySrv s))
     \<union> report_of (sv_listener (server_of MetricsSrv s))"

text \<open>An error that is chosen, or still on its way, is one a listener failed with; without one, the context
  was cancelled; and a server is closed when \<open>Run\<close> has passed its shutdown.\<close>

definition run_ok :: "run_event list \<Rightarrow> run_state \<Rightarrow> bool" where
  "run_ok es s \<longleftrightarrow>
     unread s \<subseteq> failed_with es
     \<and> (rn_phase s = Waiting \<longrightarrow> failed_with es \<subseteq> unread s)
     \<and> (rn_cancelled s \<longleftrightarrow> Cancelled \<in> set es)
     \<and> (\<forall>e. decided (rn_phase s) = Some (Some e) \<longrightarrow> e \<in> failed_with es)
     \<and> (decided (rn_phase s) = Some None \<longrightarrow> Cancelled \<in> set es)
     \<and> (sv_closed (server_of ProxySrv s) \<longleftrightarrow> (\<exists>r. rn_phase s = ProxyDown r \<or> rn_phase s = Returned r))
     \<and> (sv_closed (server_of MetricsSrv s) \<longleftrightarrow> (\<exists>r. rn_phase s = Returned r))"

lemma failed_with_snoc [simp]:
  "failed_with (es @ [ListenFailed k e]) = insert e (failed_with es)"
  "failed_with [] = {}"
  by (auto simp: failed_with_def)

lemma failed_with_other:
  "(\<And>k x. e \<noteq> ListenFailed k x) \<Longrightarrow> failed_with (es @ [e]) = failed_with es"
  by (auto simp: failed_with_def)

lemma unread_simps [simp]:
  "unread (s\<lparr>rn_cancelled := c\<rparr>) = unread s"
  "unread (s\<lparr>rn_phase := p\<rparr>) = unread s"
  "unread (shut k s) = unread s"
  by (simp_all add: unread_def)

lemma unread_step:
  "sv_listener (server_of k s) = Pending \<Longrightarrow> unread (listener_to k Listening s) = unread s"
  "sv_listener (server_of k s) = Listening \<Longrightarrow> unread (listener_to k (Reporting e) s) = insert e (unread s)"
  "sv_listener (server_of k s) = Reporting e \<Longrightarrow>
     unread (listener_to k Ended (s\<lparr>rn_errs := rn_errs s @ [e]\<rparr>)) = unread s"
  "sv_listener (server_of k s) \<in> {Pending, Listening} \<Longrightarrow> unread (listener_to k Ended s) = unread s"
  by (cases k; auto simp: unread_def)+

lemma reporting_unread: "sv_listener (server_of k s) = Reporting e \<Longrightarrow> e \<in> unread s"
  by (cases k) (simp_all add: unread_def)

lemma run_step_ok:
  assumes "run_step s e t" and "run_ok es s"
  shows "run_ok (es @ [e]) t"
  using assms
proof (induction rule: run_step.induct)
  case (serving k s)
  then show ?case by (simp add: run_ok_def failed_with_other unread_step)
next
  case (failing k s e)
  then show ?case by (auto simp: run_ok_def unread_step)
next
  case (sending k s e)
  then show ?case by (simp add: run_ok_def failed_with_other unread_step)
next
  case (closing k s)
  then show ?case by (simp add: run_ok_def failed_with_other unread_step)
next
  case (select_err s e es)
  then have "unread (s\<lparr>rn_errs := es\<rparr>) \<subseteq> unread s" "e \<in> unread s" by (auto simp: unread_def)
  with select_err show ?case by (auto simp: run_ok_def failed_with_other)
qed (auto simp: run_ok_def failed_with_other)

lemma run_trace_ok: "run_trace cfg es s \<Longrightarrow> run_ok es s"
proof (induction rule: run_trace.induct)
  case started
  have "rn_errs (run_start cfg) = []" "rn_phase (run_start cfg) = Waiting" "\<not> rn_cancelled (run_start cfg)"
    by (simp_all add: run_start_def)
  then show ?case by (simp add: run_ok_def unread_def)
next
  case (stepped es s e t)
  then show ?case by (blast intro: run_step_ok)
qed

text \<open>When \<open>Run\<close> returns, both servers have been shut down; an error it returns is one a
  listener failed with, and it returns none only after a signal.\<close>

theorem run_result:
  assumes "run_trace cfg es s" and "rn_phase s = Returned r"
  shows "sv_closed (rn_proxy s) \<and> sv_closed (rn_metrics s)
    \<and> (case r of None \<Rightarrow> Cancelled \<in> set es | Some e \<Rightarrow> \<exists>k. ListenFailed k e \<in> set es)"
proof -
  have "server_of ProxySrv s = rn_proxy s" "server_of MetricsSrv s = rn_metrics s"
    by (simp_all add: server_of.simps)
  then show ?thesis
    using run_trace_ok [OF assms(1)] assms(2)
    by (auto simp: run_ok_def failed_with_def split: option.splits)
qed

section \<open>Progress\<close>

text \<open>Property C17: \<open>Run\<close> cannot hang and leaves no goroutine behind: a run has at most ten steps, and
  one in which the program has nothing left to do has returned with both goroutines ended,
  unless it is still serving: no signal arrived and no listener failed.\<close>

theorem run_terminates:
  assumes "run_trace cfg es s"
  shows "length es \<le> 10
    \<and> (stuck s \<longrightarrow> (\<exists>r. rn_phase s = Returned r) \<and> (\<forall>k. sv_listener (server_of k s) = Ended)
         \<or> rn_phase s = Waiting \<and> Cancelled \<notin> set es \<and> (\<forall>k e. ListenFailed k e \<notin> set es))"
proof (intro conjI impI)
  show "length es \<le> 10" using run_trace_rank [OF assms] by simp
next
  assume stuck: "stuck s"
  note ok = run_trace_ok [OF assms]
  have idle: "sv_listener (server_of k s) \<noteq> Reporting e" for k e
    using room_unsent [OF run_trace_room [OF assms], of k] run_step.sending [of k s e] stuck
    by (force simp: stuck_def)
  have ended: "sv_listener (server_of k s) = Ended" if "sv_closed (server_of k s)" for k
    using that idle [of k] run_step.closing [of k s] stuck
    by (cases "sv_listener (server_of k s)") (force simp: stuck_def)+
  show "(\<exists>r. rn_phase s = Returned r) \<and> (\<forall>k. sv_listener (server_of k s) = Ended)
      \<or> rn_phase s = Waiting \<and> Cancelled \<notin> set es \<and> (\<forall>k e. ListenFailed k e \<notin> set es)"
  proof (cases "rn_phase s")
    case Waiting
    then have "rn_errs s = []" "\<not> rn_cancelled s"
      using run_step.select_err [of s] run_step.select_done [of s] stuck
      by (cases "rn_errs s"; force simp: stuck_def)+
    moreover have "report_of (sv_listener (server_of k s)) = {}" for k
      using idle [of k] by (cases "sv_listener (server_of k s)") auto
    ultimately show ?thesis using ok Waiting by (auto simp: run_ok_def unread_def failed_with_def)
  next
    case (Selected r)
    then show ?thesis using run_step.shut_proxy stuck by (force simp: stuck_def)
  next
    case (ProxyDown r)
    then show ?thesis using run_step.shut_metrics stuck by (force simp: stuck_def)
  next
    case (Returned r)
    then have "sv_closed (server_of k s)" for k using ok by (cases k) (auto simp: run_ok_def)
    then show ?thesis using Returned ended by blast
  qed
qed

section \<open>The end of the program\<close>

text \<open>What \<open>main\<close> does when \<open>Run\<close> is back: \<open>log.Fatal\<close> exits with status 1 and runs no deferred call;
  otherwise the deferred \<open>Close\<close> runs and its result is dropped.\<close>

definition main_exit :: "bytes option \<Rightarrow> 'w app \<Rightarrow> 'w \<Rightarrow> (int \<times> 'w app) \<times> 'w" where
  "main_exit res a w =
     (case res of
        Some e \<Rightarrow> ((1, a), w)
      | None \<Rightarrow> (case app_close a w of ((ok, a1), w') \<Rightarrow> ((0, a1), w')))"


lemma main_exit_status:
  assumes "run_trace cfg es s" and "rn_phase s = Returned r" and "main_exit r a w = ((code, a1), w1)"
  shows "code = 0 \<and> Cancelled \<in> set es \<and> ap_done a1 \<and> w1 = snd (store_close (ap_store a) w)
    \<or> code = 1 \<and> (\<exists>k e. ListenFailed k e \<in> set es) \<and> a1 = a \<and> w1 = w"
  using run_trace_ok [OF assms(1)] assms(2,3)
  by (cases r) (auto simp: run_ok_def failed_with_def main_exit_def app_close_def Let_def split: prod.splits)

section \<open>Executing a run\<close>

text \<open>The step relation as a function: the state a label leads to.\<close>

fun next_state :: "run_event \<Rightarrow> run_state \<Rightarrow> run_state option" where
  "next_state (Serving k) s =
     (if sv_listener (server_of k s) = Pending \<and> \<not> sv_closed (server_of k s)
      then Some (listener_to k Listening s) else None)"
| "next_state (ListenFailed k e) s =
     (if sv_listener (server_of k s) = Listening
      then Some (listener_to k (Reporting e) s) else None)"
| "next_state (Sent k e) s =
     (if sv_listener (server_of k s) = Reporting e \<and> length (rn_errs s) < err_capacity
      then Some (listener_to k Ended (s\<lparr>rn_errs := rn_errs s @ [e]\<rparr>)) else None)"
| "next_state (ServerClosed k) s =
     (if (sv_listener (server_of k s) = Pending \<or> sv_listener (server_of k s) = Listening)
          \<and> sv_closed (server_of k s)
      then Some (listener_to k Ended s) else None)"
| "next_state Cancelled s = (if \<not> rn_cancelled s then Some (s\<lparr>rn_cancelled := True\<rparr>) else None)"
| "next_state SelectDone s =
     (if rn_phase s = Waiting \<and> rn_cancelled s then Some (s\<lparr>rn_phase := Selected None\<rparr>) else None)"
| "next_state (SelectErr e) s =
     (case rn_errs s of
        x # es \<Rightarrow> if rn_phase s = Waiting \<and> x = e
          then Some (s\<lparr>rn_errs := es, rn_phase := Selected (Some e)\<rparr>) else None
      | [] \<Rightarrow> None)"
| "next_state (Shutdown ProxySrv) s =
     (case rn_phase s of Selected r \<Rightarrow> Some (shut ProxySrv (s\<lparr>rn_phase := ProxyDown r\<rparr>)) | _ \<Rightarrow> None)"
| "next_state (Shutdown MetricsSrv) s =
     (case rn_phase s of ProxyDown r \<Rightarrow> Some (shut MetricsSrv (s\<lparr>rn_phase := Returned r\<rparr>)) | _ \<Rightarrow> None)"

lemma run_step_next: "run_step s e t \<longleftrightarrow> next_state e s = Some t"
proof (cases e)
  case (Shutdown k)
  then show ?thesis by (cases k) (auto simp: run_step_simps shut.simps split: phase.splits)
next
  case (SelectErr x)
  then show ?thesis by (cases "rn_errs s") (auto simp: run_step_simps)
qed (auto simp: run_step_simps)

fun exec_run :: "run_event list \<Rightarrow> run_state \<Rightarrow> run_state option" where
  "exec_run [] s = Some s"
| "exec_run (e # es) s = (case next_state e s of None \<Rightarrow> None | Some t \<Rightarrow> exec_run es t)"

lemma exec_run_snoc:
  "exec_run (es @ [e]) s = (case exec_run es s of None \<Rightarrow> None | Some t \<Rightarrow> next_state e t)"
  by (induction es arbitrary: s) (auto split: option.splits)

lemma run_trace_exec: "run_trace cfg es s \<longleftrightarrow> exec_run es (run_start cfg) = Some s"
proof
  show "run_trace cfg es s \<Longrightarrow> exec_run es (run_start cfg) = Some s"
    by (induction rule: run_trace.induct) (simp_all add: exec_run_snoc run_step_next)
  show "exec_run es (run_start cfg) = Some s \<Longrightarrow> run_trace cfg es s"
  proof (induction es arbitrary: s rule: rev_induct)
    case Nil
    then show ?case by (auto intro: run_trace.started)
  next
    case (snoc e es)
    then obtain t where "exec_run es (run_start cfg) = Some t" "next_state e t = Some s"
      by (auto simp: exec_run_snoc split: option.splits)
    with snoc.IH show ?case by (blast intro: run_trace.stepped run_step_next [THEN iffD2])
  qed
qed

text \<open>The metrics address is taken; and a run that a signal ends.\<close>

definition failing_run :: "run_event list" where
  "failing_run = [Serving ProxySrv, Serving MetricsSrv, ListenFailed MetricsSrv ''in use'']"

definition failed_run :: "run_event list" where
  "failed_run = failing_run @ [Sent MetricsSrv ''in use'', SelectErr ''in use'', Shutdown ProxySrv,
     Shutdown MetricsSrv, ServerClosed ProxySrv]"

definition after_run :: "run_event list \<Rightarrow> run_state" where
  "after_run es = (case exec_run es (run_start default_config) of Some s \<Rightarrow> s | None \<Rightarrow> run_start default_config)"

lemma example_traces:
  "run_trace default_config failing_run (after_run failing_run)"
  "run_trace default_config failed_run (after_run failed_run)"
  unfolding run_trace_exec by code_simp+

lemma failed_run_returned: "rn_phase (after_run failed_run) = Returned (Some ''in use'')"
  by code_simp

theorem run_report_never_blocks_witness:
  "\<exists>t. run_step (after_run failing_run) (Sent MetricsSrv ''in use'') t
    \<and> sv_listener (server_of MetricsSrv t) = Ended"
proof (rule run_report_never_blocks [OF example_traces(1)])
  show "sv_listener (server_of MetricsSrv (after_run failing_run)) = Reporting ''in use''" by code_simp
qed

theorem run_result_witness:
  "sv_closed (rn_proxy (after_run failed_run)) \<and> (\<exists>k. ListenFailed k ''in use'' \<in> set failed_run)"
  using run_result [OF example_traces(2) failed_run_returned] by simp

theorem run_terminates_witness:
  "length failed_run \<le> 10 \<and> sv_listener (server_of ProxySrv (after_run failed_run)) = Ended"
proof -
  have "length failed_run \<le> 10" using run_terminates [OF example_traces(2)] by blast
  moreover have "sv_listener (server_of ProxySrv (after_run failed_run)) = Ended" by code_simp
  ultimately show ?thesis by blast
qed

end
