(* ===== verification/Proem_Main.thy ===== *)
theory Proem_Main
  imports App_Run
begin

text \<open>
  \<open>cmd/proem/main.go\<close> as a whole: the command line, the start, the run and the exit status. \<open>start\<close> is
  \<open>app.New\<close> on the files it finds, \<open>run\<close> what \<open>App.Run\<close> returns; both are instantiated below.
\<close>

text \<open>The exit status and what is printed on standard output; messages of \<open>log.Fatal\<close> go to standard error
  and exit with status 1.\<close>

definition proem_main ::
  "(bytes \<Rightarrow> int option) \<Rightarrow> bytes option \<Rightarrow> (config \<Rightarrow> (startup_error, 'w app \<times> metric_log) outcome)
     \<Rightarrow> ('w app \<Rightarrow> 'w \<Rightarrow> bytes option \<times> 'w) \<Rightarrow> bytes \<Rightarrow> bytes list \<Rightarrow> 'w \<Rightarrow> (int \<times> bytes) \<times> 'w" where
  "proem_main dur rnd start run version args w =
     (case main_command dur args of
        PrintVersion \<Rightarrow> ((0, ''proem '' @ version @ nl), w)
      | IssueUsage \<Rightarrow> ((1, []), w)
      | IssueTokenFor name \<Rightarrow>
          (case issue_and_describe name rnd of Inl e \<Rightarrow> ((1, []), w) | Inr out \<Rightarrow> ((0, out), w))
      | Fatal e \<Rightarrow> ((1, []), w)
      | Serve cfg \<Rightarrow>
          (case start cfg of
             Inl e \<Rightarrow> ((1, []), w)
           | Inr (a, ms) \<Rightarrow>
               (case run a w of
                  (r, w1) \<Rightarrow> (case main_exit r a w1 of ((code, a1), w2) \<Rightarrow> ((code, []), w2)))))"

text \<open>Property C40: the exit status tells how the program ended. It serves with a valid configuration only; a
  run ended by a signal exits with 0 and closes Redis; one ended by a failing listener exits with 1
  at once, with the deferred \<open>Close\<close> left out and Redis not closed.\<close>

theorem main_status:
  assumes "main_command dur args = Serve cfg" and "start cfg = Inr (a, ms)" and "run a w = (r, w1)"
    and "run_trace cfg es s" and "rn_phase s = Returned r"
    and "proem_main dur rnd start run version args w = ((code, out), w2)"
  shows "config_ok cfg \<and> out = []
    \<and> (code = 0 \<and> Cancelled \<in> set es \<and> w2 = snd (store_close (ap_store a) w1)
       \<or> code = 1 \<and> (\<exists>k e. ListenFailed k e \<in> set es) \<and> w2 = w1)"
proof -
  obtain code1 a1 w3 where e: "main_exit r a w1 = ((code1, a1), w3)" by (metis prod.exhaust)
  then have "code1 = code" "w3 = w2" "out = []" using assms(1,2,3,6) by (simp_all add: proem_main_def)
  with main_exit_status [OF assms(4,5) e] parse_args_config_ok [OF main_command_serves [OF assms(1)]]
  show ?thesis by blast
qed

text \<open>The metrics address is taken, as in \<open>failed_run\<close>.\<close>

theorem main_status_witness:
  "fst (fst (proem_main (\<lambda>d. None) None (\<lambda>cfg. Inr (demo_app, [])) (\<lambda>a w. (Some ''in use'', w)) ''dev'' [] ())) = 1"
proof -
  obtain code out w2 where m: "proem_main (\<lambda>d. None) None (\<lambda>cfg. Inr (demo_app, []))
      (\<lambda>a w. (Some ''in use'', w)) ''dev'' [] () = ((code, out), w2)" by (metis prod.exhaust)
  have "proxy_entries [] = []" by code_simp
  then have "main_command (\<lambda>d. None) [] = Serve default_config"
    by (simp add: main_command_def parse_args_def parse_flags.simps [of _ "[]"] parse_one_def initial_flags_def
        default_config_def StickyLB_def Let_def)
  moreover have "Cancelled \<notin> set failed_run" by code_simp
  ultimately show ?thesis
    using main_status [OF _ _ _ example_traces(2) failed_run_returned m] by (simp add: m)
qed

end
