(* ===== verification/Handler_Serves.thy ===== *)
theory Handler_Serves
  imports Handler_Correct Pool
begin

text \<open>
  What the handler promises as a whole: when one member of the pool can answer, the caller gets the
  answer of a member, as the upstream sent it. The failover loop, the router's choice and the relay
  of the response meet here.
\<close>

section \<open>Upstreams\<close>

text \<open>What \<open>http.Client.Do\<close> documents about the responses it returns: informational ones are consumed,
  the status has three digits, and the header map has one entry per canonical key.\<close>

definition upstream_ok :: "'w handler \<Rightarrow> bool" where
  "upstream_ok h \<longleftrightarrow>
     (\<forall>up w rp w'. h_do h up w = (Some rp, w') \<longrightarrow>
        wf_header (rp_header rp) \<and> 200 \<le> rp_status rp \<and> rp_status rp \<le> 999)"

text \<open>A response the handler does not fail over.\<close>

definition final_response :: "up_response \<Rightarrow> bool" where
  "final_response rp \<longleftrightarrow>
     \<not> fst (should_failover (rp_status rp) (read_all (rp_body rp)) (rp_header rp))"

text \<open>The events of an answer deliver a response as it is.\<close>

definition relayed :: "up_response \<Rightarrow> wevent list \<Rightarrow> bool" where
  "relayed rp es \<longleftrightarrow> answers es
     \<and> (\<exists>hd. rs_sent (deliver es) = Some (rp_status rp, hd) \<and> (\<forall>k. hvalues hd k = hvalues (rp_header rp) k))
     \<and> rs_body (deliver es) = read_all (rp_body rp)"

text \<open>A member answers for itself, whatever happened before in the worlds that can be reached.\<close>

definition can_answer :: "'w handler \<Rightarrow> request \<Rightarrow> bytes \<Rightarrow> ('w \<Rightarrow> bool) \<Rightarrow> member \<Rightarrow> bool" where
  "can_answer h rq body I m \<longleftrightarrow>
     (\<forall>w. I w \<longrightarrow> (\<exists>rp w'. send h rq body m w = (Some rp, w') \<and> final_response rp))"

text \<open>The worlds \<open>I\<close> are those in which nobody has put the member with the cooldown key \<open>k\<close> into cooldown:
  upstreams, the random source, reads of Redis and writes of other keys stay in them, and in them an
  \<open>MGET\<close> that succeeds reports no value for \<open>k\<close>. Redis may fail at any call, and other instances may
  write every other key at any time.\<close>

definition spares :: "'w handler \<Rightarrow> bytes \<Rightarrow> ('w \<Rightarrow> bool) \<Rightarrow> bool" where
  "spares h k I \<longleftrightarrow>
     (\<forall>up w. I w \<longrightarrow> I (snd (h_do h up w))) \<and> (\<forall>n w. I w \<longrightarrow> I (snd (h_intn h n w)))
   \<and> (\<forall>cl. h_store h = Some cl \<longrightarrow>
        (\<forall>c ks w. I w \<longrightarrow> I (snd (rc_mget cl c ks w))
           \<and> pred_option (list_all2 (\<lambda>k' v. k' = k \<longrightarrow> v = None) ks) (fst (rc_mget cl c ks w)))
      \<and> (\<forall>c k' w. I w \<longrightarrow> I (snd (rc_get cl c k' w)))
      \<and> (\<forall>c k' v ttl w. I w \<longrightarrow> k' \<noteq> k \<longrightarrow> I (snd (rc_set cl c k' v ttl w))))"

text \<open>A member's answer was relayed.\<close>

definition served_by :: "'w handler \<Rightarrow> request \<Rightarrow> bytes \<Rightarrow> member list \<Rightarrow> 'w rstate \<Rightarrow> 'w rstate \<Rightarrow> bool" where
  "served_by h rq body members st st' \<longleftrightarrow>
     (\<exists>m rp w w' es. m \<in> set members \<and> is_enabled m \<and> send h rq body m w = (Some rp, w')
        \<and> final_response rp \<and> rt_out st' = rt_out st @ es \<and> relayed rp es)"

lemma send_upstream_ok:
  "upstream_ok h \<Longrightarrow> send h rq body m w = (Some rp, w') \<Longrightarrow>
     wf_header (rp_header rp) \<and> 200 \<le> rp_status rp \<and> rp_status rp \<le> 999"
  by (auto simp: send_def upstream_ok_def split: option.splits)

text \<open>Without Redis nobody is ever in cooldown.\<close>

lemma spares_without_redis: "h_store h = None \<Longrightarrow> spares h k (\<lambda>w. True)"
  by (simp add: spares_def)

section \<open>What keeps a member out of cooldown\<close>

lemma spared_healthy:
  assumes "spares h (cool_prefix @ m_id g) I" and "I w"
    and "healthy_members (h_store h) members w = (ids, healthy, w')"
  shows "I w' \<and> (g \<in> set members \<longrightarrow> is_enabled g \<longrightarrow> m_id g \<in> set ids)"
proof (cases "h_store h")
  case None
  with assms show ?thesis by (auto simp: healthy_members_def filter_healthy_def Let_def)
next
  case (Some cl)
  let ?ids = "map m_id (filter is_enabled members)"
  obtain r w1 where g: "rc_mget cl RequestCtx (map (\<lambda>id. cool_prefix @ id) ?ids) w = (r, w1)" by force
  have spared: "I w1 \<and> pred_option (list_all2 (\<lambda>k v. k = cool_prefix @ m_id g \<longrightarrow> v = None)
      (map (\<lambda>id. cool_prefix @ id) ?ids)) r"
    using assms(1,2) Some g unfolding spares_def by (metis fst_conv snd_conv)
  show ?thesis
  proof (cases "?ids = [] \<or> r = None")
    case True
    with assms(2,3) Some g spared show ?thesis
      by (auto simp: healthy_members_def filter_healthy_def Let_def filter_empty_conv split: if_splits option.splits)
  next
    case False
    then obtain vs where vs: "r = Some vs" by auto
    then have ids: "ids = map fst (filter (\<lambda>(id, v). v = None) (zip ?ids vs))" "w' = w1"
      using assms(3) False Some g by (auto simp: healthy_members_def filter_healthy_def Let_def)
    have all: "list_all2 (\<lambda>id v. id = m_id g \<longrightarrow> v = None) ?ids vs"
      using spared vs by (simp add: list_all2_conv_all_nth)
    have "m_id g \<in> set ids" if "g \<in> set members" "is_enabled g"
    proof -
      have "m_id g \<in> set ?ids" using that by auto
      then obtain i where i: "i < length ?ids" "?ids ! i = m_id g" by (metis in_set_conv_nth)
      with all have "i < length vs" "vs ! i = None" by (auto simp: list_all2_conv_all_nth)
      with i have "(m_id g, None) \<in> set (zip ?ids vs)" by (metis length_map in_set_zip fst_conv snd_conv)
      then show ?thesis unfolding ids by force
    qed
    with ids spared show ?thesis by simp
  qed
qed

lemma spared_choice:
  "spares h k I \<Longrightarrow> I w \<Longrightarrow> I (snd (weighted_choice (h_intn h) session ms w))"
  unfolding spares_def by (simp add: weighted_choice_def random_pick_def Let_def split_beta)

lemma spared_get_sticky:
  "spares h k I \<Longrightarrow> I w \<Longrightarrow> I (snd (get_sticky (h_store h) c session w))"
  unfolding spares_def by (simp add: get_sticky_def split: option.splits)

text \<open>The router picks somebody while the spared member is a candidate.\<close>

lemma spared_pick:
  assumes spares: "spares h (cool_prefix @ m_id g) I" "I w" and ok: "weights_ok members"
    and pick: "router_pick (h_store h) (h_intn h) members session b w = (p, w')"
  shows "I w' \<and> (g \<in> set members \<longrightarrow> is_enabled g \<longrightarrow> (\<exists>m. p = Picked m))"
proof -
  obtain ids healthy w1 where h: "healthy_members (h_store h) members w = (ids, healthy, w1)"
    by (metis prod_cases3)
  note s = spared_healthy [OF spares h]
  then have w1: "I w1" by blast
  have "I (snd (router_pick (h_store h) (h_intn h) members session b w))"
    using h spares(2) w1 spared_choice [OF spares(1)] spared_get_sticky [OF spares(1) w1, of RequestCtx session]
    by (auto simp: router_pick_def split: prod.splits option.splits)
  moreover have "\<exists>m. p = Picked m" if "g \<in> set members" "is_enabled g"
  proof -
    have "ids \<noteq> []" using s that by auto
    then have "fst (filter_healthy (h_store h) RequestCtx (map m_id (filter is_enabled members)) w) \<noteq> []"
      using healthy_members_surviving [OF h] by simp
    moreover have "members \<noteq> []" using that by auto
    ultimately show ?thesis
      using router_pick_total [OF ok, where st = "h_store h" and intn = "h_intn h" and w = w
          and session = session and sticky = b] pick
      by (auto split: pick_result.splits pick_error.splits)
  qed
  ultimately show ?thesis using pick by simp
qed

lemma spared_note: "spares h k I \<Longrightarrow> I (rt_world st) \<Longrightarrow> I (rt_world (note_sticky h session m b st))"
  using spared_get_sticky [of h k I "rt_world st" RequestCtx session]
  by (auto simp: note_sticky_def split: prod.splits option.splits)

lemma spared_send: "spares h k I \<Longrightarrow> I w \<Longrightarrow> I (snd (send h rq body m w))"
  unfolding spares_def by (simp add: send_def split: option.splits)

lemma spared_cooldown:
  "spares h (cool_prefix @ i) I \<Longrightarrow> I w \<Longrightarrow> m_id m \<noteq> i \<Longrightarrow> I (cooldown h m ttl w)"
  unfolding spares_def by (auto simp: cooldown_def set_cooldown_def)

lemma spared_try:
  assumes "spares h (cool_prefix @ i) I" and "I (rt_world st)" and "m_id m \<noteq> i"
    and "try_response h name session m rp st = (Inl bf, st')"
  shows "I (rt_world st')"
  using assms spared_cooldown [OF assms(1-3)]
  by (auto simp: try_response_def Let_def split: if_splits prod.splits)

section \<open>One iteration\<close>

lemma try_response_result:
  assumes "accepts (h_conn h)" and "upstream_ok h" and "send h rq body m w = (Some rp, w')"
    and "try_response h name session m rp st = (res, st')"
  shows "if final_response rp then res = Inr Served \<and> (\<exists>es. rt_out st' = rt_out st @ es \<and> relayed rp es)
         else \<exists>bf. res = Inl bf"
  using assms(4)
proof (cases rule: try_response_runs)
  case (failed ttl reason)
  then show ?thesis by (simp add: final_response_def)
next
  case (final r body)
  from send_upstream_ok [OF assms(2,3)] final
  have "res = Inr Served \<and> (\<exists>es hd. rt_out st' = rt_out st @ es \<and> answers es
    \<and> rs_sent (deliver es) = Some (rp_status rp, hd) \<and> (\<forall>k. hvalues hd k = hvalues (rp_header rp) k)
    \<and> rs_body (deliver es) = read_all (rp_body rp))"
    by (intro try_response_relays [OF assms(1) _ _ _ _ assms(4)]) simp_all
  with final show ?thesis by (auto simp: relayed_def final_response_def)
qed

lemma another_member:
  assumes "can_answer h rq body I g" and "g \<in> set members" and "distinct (map m_id members)"
    and "m \<in> set members" and "I w" and "send h rq body m w = (o1, w')"
    and "\<And>rp. o1 = Some rp \<Longrightarrow> \<not> final_response rp"
  shows "m_id m \<noteq> m_id g"
proof
  assume "m_id m = m_id g"
  then have "m = g" using assms(2-4) by (metis distinct_map inj_onD)
  with assms(1,5-7) show False unfolding can_answer_def by (metis prod.inject)
qed

text \<open>While a member that can answer is left and spared, an iteration goes on only from another member, and
  otherwise ends with a member's answer.\<close>

lemma serve_step_outcome:
  assumes ok: "accepts (h_conn h)" "upstream_ok h" "weights_ok members"
    and spares: "spares h (cool_prefix @ m_id g) I" "I (rt_world st)"
    and one: "g \<in> set members" "is_enabled g" "can_answer h rq body I g" "distinct (map m_id members)"
      "m_id g \<notin> set tried"
    and step: "serve_step h rq name body members a tried l st = (r, st')"
  shows "case r of
      Again m bf \<Rightarrow> m_id m \<noteq> m_id g \<and> rt_out st' = rt_out st \<and> I (rt_world st')
    | Stop res tried' \<Rightarrow> res = Served \<and> served_by h rq body members st st'"
proof -
  have g: "g \<in> set (filter_not_tried members tried)" using one(1,5) by (simp add: filter_not_tried_def)
  have weights: "weights_ok (filter_not_tried members tried)"
    unfolding filter_not_tried_def by (rule weights_ok_filter [OF ok(3)])
  from step show ?thesis
  proof (cases rule: serve_step_runs)
    case no_candidate
    with g show ?thesis by simp
  next
    case (no_pick b p)
    with spared_pick [OF spares weights no_pick(2)] g one(2) show ?thesis by auto
  next
    case (sent b m w st1 o1 w1)
    have "I w" using spared_pick [OF spares weights sent(4)] by blast
    then have I1: "I (rt_world st1)" unfolding sent(5) by (intro spared_note [OF spares(1)]) simp
    have I2: "I w1" using spared_send [OF spares(1), OF I1, of rq body m] by (simp add: sent(6))
    note other = another_member [OF one(3,1,4) sent(1) I1 sent(6)]
    have out: "rt_out (st1\<lparr>rt_world := w1\<rparr>) = rt_out st" by (simp add: sent(5))
    from sent(7) show ?thesis
    proof (elim disjE exE conjE)
      assume none: "o1 = None" "r = Again m bad_gateway" "st' = transport_failure h name m (st1\<lparr>rt_world := w1\<rparr>)"
      then have "m_id m \<noteq> m_id g" using other by simp
      moreover have "I (rt_world st')"
        using spared_cooldown [OF spares(1), OF I2 calculation] by (simp add: none transport_failure_def Let_def)
      ultimately show ?thesis by (simp add: none out del: rstate.select_convs)
    next
      fix rp bf
      assume again: "o1 = Some rp" "r = Again m bf"
        and t: "try_response h name (session_id rq) m rp (st1\<lparr>rt_world := w1\<rparr>) = (Inl bf, st')"
      from try_response_result [OF ok(1,2) _ t] sent(6) again(1)
      have "\<not> final_response rp" by fastforce
      then have "m_id m \<noteq> m_id g" using other again(1) by simp
      moreover have "I (rt_world st')" by (rule spared_try [OF spares(1) _ calculation t]) (simp add: I2)
      ultimately show ?thesis using again(2) try_response_out [OF t] out by simp
    next
      fix rp res
      assume stop: "o1 = Some rp" "r = Stop res (tried @ [m_id m])"
        and t: "try_response h name (session_id rq) m rp (st1\<lparr>rt_world := w1\<rparr>) = (Inr res, st')"
      from try_response_result [OF ok(1,2) _ t] sent(6) stop(1)
      obtain es where "final_response rp" "res = Served" "rt_out st' = rt_out st @ es" "relayed rp es"
        using out by (fastforce split: if_splits)
      then show ?thesis using stop sent(1,2,6) unfolding served_by_def by auto
    qed
  qed
qed

section \<open>The whole request\<close>

lemma serve_loop_outcome:
  assumes ok: "accepts (h_conn h)" "upstream_ok h" "weights_ok members"
    and spares: "spares h (cool_prefix @ m_id g) I" "I (rt_world st)"
    and one: "g \<in> set members" "is_enabled g" "can_answer h rq body I g" "distinct (map m_id members)"
    and loop: "serve_loop h rq name body members 0 [] None st = ((res, tried), st')"
  shows "res = Served \<and> served_by h rq body members st st'"
proof -
  let ?ids = "m_id ` {m \<in> set members. is_enabled m}"
  let ?I = "\<lambda>(a::nat) t (l::buffered option) s. rt_out s = rt_out st \<and> I (rt_world s) \<and> m_id g \<notin> set t
      \<and> distinct t \<and> length t = a \<and> set t \<subseteq> ?ids"
  note step = serve_step_outcome [OF ok spares(1) _ one]
  show ?thesis
  proof (rule serve_loop_rule [OF loop, where I = ?I])
    show "?I (Suc b) (t @ [m_id m]) (Some bf) s'"
      if "?I b t k s" "serve_step h rq name body members b t k s = (Again m bf, s')" for b t k s m bf s'
      using that(2)
    proof (cases rule: serve_step_cases)
      case (again m' bf')
      moreover have "m_id m \<noteq> m_id g" "I (rt_world s')" using step [OF _ _ that(2)] that(1) by simp_all
      ultimately show ?thesis using that(1) by auto
    qed simp_all
    show "r = Served \<and> served_by h rq body members st s'"
      if "?I b t k s" "serve_step h rq name body members b t k s = (Stop r t', s')" for b t k s r t' s'
      using step [OF _ _ that(2)] that(1) by (simp add: served_by_def)
    show "Exhausted k = Served \<and> served_by h rq body members st s"
      if "?I b t k s" "length members \<le> b" for b t k s
    proof -
      have "set t \<subseteq> ?ids - {m_id g}" using that(1) by blast
      then have "card (set t) \<le> card (?ids - {m_id g})" by (intro card_mono) auto
      also have "\<dots> < card ?ids" using one(1,2) by (intro psubset_card_mono) auto
      also have "\<dots> \<le> length members" by (rule card_enabled_ids)
      finally show ?thesis using that by (simp add: distinct_card)
    qed
  qed (simp_all add: spares)
qed

lemma serve_http_serves:
  assumes pool: "h_active h = Some p" "active_ok p" "(\<Sum>m\<leftarrow>p_members p. m_weight m) \<le> max_int64"
    and env: "accepts (h_conn h)" "upstream_ok h"
    and one: "g \<in> set (p_members p)" "is_enabled g" "can_answer h rq (sent_body rq) I g"
    and spared: "spares h (cool_prefix @ m_id g) I" "I (rt_world st)"
  shows "\<exists>st'. serve_http h rq st = (True, st') \<and> served_by h rq (sent_body rq) (p_members p) st st'"
proof -
  have w: "weights_ok (p_members p)" using pool(2,3) by (simp add: weights_ok_def active_ok_def)
  have d: "distinct (map m_id (p_members p))" using pool(2) by (simp add: active_ok_def pool_ok_def)
  obtain res tried st' where l: "serve_loop h rq (client_name rq) (sent_body rq) (p_members p) 0 [] None st
      = ((res, tried), st')" by (metis prod.exhaust)
  from serve_loop_outcome [OF env w spared one d l] l pool(1) one(1) show ?thesis
    by (auto simp: serve_http_def sent_body_def)
qed

text \<open>Property C6: the proxy serves whenever it can. If one enabled member of a loaded pool can answer the
  request and nobody puts it into cooldown, the caller gets the complete and unchanged answer of an
  enabled member that does not fail over, whichever members the router picks first, whatever those do,
  and whatever else Redis holds, loses or refuses.\<close>

theorem pool_serves_if_one_can:
  assumes pool: "h_active h = Some p" "active_ok p" "(\<Sum>m\<leftarrow>p_members p. m_weight m) \<le> max_int64"
    and env: "accepts (h_conn h)" "upstream_ok h"
    and one: "g \<in> set (p_members p)" "is_enabled g" "can_answer h rq (sent_body rq) I g"
    and spared: "spares h (cool_prefix @ m_id g) I" "I (rt_world st)"
  shows "\<exists>st'. serve_http h rq st = (True, st') \<and> served_by h rq (sent_body rq) (p_members p) st st'"
  using assms by (rule serve_http_serves)

definition demo_pool :: pool where
  "demo_pool = apply_defaults \<lparr>p_members = [demo_member ''a'', demo_member ''b'']\<rparr>"

definition demo_fallback :: member where "demo_fallback = default_member (demo_member ''b'')"

lemma demo_pool_ok: "active_ok demo_pool"
proof -
  have "url_parse ''https://a'' = Some ''https''" "url_parse ''https://b'' = Some ''https''" by code_simp+
  then show ?thesis
    unfolding demo_pool_def
    by (intro active_ok_defaults)
      (simp add: pool_ok_def member_ok_def demo_member_def example_member_def valid_types_def member_types)
qed

lemma demo_pool_facts:
  "(\<Sum>m\<leftarrow>p_members demo_pool. m_weight m) \<le> max_int64" "is_enabled demo_fallback"
  "demo_fallback \<in> set (p_members demo_pool)"
  by (simp_all add: demo_pool_def demo_fallback_def apply_defaults_def demo_member_def example_member_def
      is_enabled_def)

lemma demo_upstream_ok: "upstream_ok ((demo_handler st)\<lparr>h_active := p\<rparr>)"
proof -
  have "wf_header [(''Content-Type'', [''text/event-stream''])]" by code_simp
  then show ?thesis
    by (auto simp: upstream_ok_def demo_handler_def new_handler_def demo_do_def wf_header_def split: if_splits)
qed

lemma demo_can_answer:
  assumes "map_option up_url (build_request (\<lambda>v. ''k'') (\<lambda>f. None) rq body demo_fallback) = Some ''https://b/v1''"
  shows "can_answer ((demo_handler st)\<lparr>h_active := p\<rparr>) rq body I demo_fallback"
proof -
  obtain up where up: "build_request (\<lambda>v. ''k'') (\<lambda>f. None) rq body demo_fallback = Some up"
    "up_url up = ''https://b/v1''" using assms by auto
  have "final_response \<lparr>rp_status = 200, rp_header = [(''Content-Type'', [''text/event-stream''])],
    rp_body = \<lparr>rd_chunks = [''he'', ''llo''], rd_fails = False\<rparr>\<rparr>" by code_simp
  then show ?thesis
    using up by (auto simp: can_answer_def send_def demo_handler_def new_handler_def demo_do_def)
qed

text \<open>The worlds of the in-memory Redis in which a key is not live.\<close>

lemma demo_spares: "spares ((demo_handler (Some mem_redis))\<lparr>h_active := p\<rparr>) k (\<lambda>w. mem_live w k = None)"
proof -
  have "mem_live (w\<lparr>mw_data := (mw_data w)(k' \<mapsto> x)\<rparr>) k = mem_live w k" if "k' \<noteq> k" for w k' x
    using that by (simp add: mem_live_def split: option.split)
  then show ?thesis
    by (auto simp: spares_def demo_handler_def new_handler_def demo_do_def mem_redis_def
        list_all2_conv_all_nth)
qed

theorem pool_serves_if_one_can_witness:
  "\<exists>st'. serve_http ((demo_handler (Some mem_redis))\<lparr>h_active := Some demo_pool\<rparr>) demo_request
       (start_state mem_empty) = (True, st')
     \<and> served_by ((demo_handler (Some mem_redis))\<lparr>h_active := Some demo_pool\<rparr>) demo_request []
         (p_members demo_pool) (start_state mem_empty) st'"
proof -
  let ?h = "(demo_handler (Some mem_redis))\<lparr>h_active := Some demo_pool\<rparr>"
  have body: "sent_body demo_request = []" by code_simp
  have "map_option up_url (build_request (\<lambda>v. ''k'') (\<lambda>f. None) demo_request [] demo_fallback)
      = Some ''https://b/v1''" by code_simp
  note can = demo_can_answer [OF this]
  note demo_pool_facts
  moreover have "h_active ?h = Some demo_pool" "accepts (h_conn ?h)"
    by (simp_all add: demo_handler_def new_handler_def accepts_def demo_conn_def)
  ultimately have "\<exists>st'. serve_http ?h demo_request (start_state mem_empty) = (True, st')
     \<and> served_by ?h demo_request (sent_body demo_request) (p_members demo_pool) (start_state mem_empty) st'"
    by (intro pool_serves_if_one_can [OF _ demo_pool_ok _ _ demo_upstream_ok _ _ _ demo_spares,
          where g = demo_fallback])
      (simp_all add: body can start_state_def mem_live_def mem_empty_def)
  then show ?thesis unfolding body .
qed

end
