(* ===== verification/Handler_Accounts.thy ===== *)
theory Handler_Accounts
  imports Handler_Serves
begin

text \<open>
  What a request leaves in the metrics: one failover per attempt that failed, one observation for the
  member that answered, the tokens of the body the caller received, and never a call the client
  library would panic on.
\<close>

section \<open>What the steps count\<close>

lemma write_body_metrics: "write_body conn b st = (ok, st') \<Longrightarrow> rt_metrics st' = rt_metrics st"
  by (auto simp: write_body_def split: prod.splits)

lemma copy_stream_metrics: "copy_stream conn chunks ob st = (ob', st') \<Longrightarrow> rt_metrics st' = rt_metrics st"
proof (induction chunks arbitrary: ob st)
  case (Cons chunk chunks)
  obtain ok st1 where w: "write_body conn chunk st = (ok, st1)" by force
  then have "rt_metrics st1 = rt_metrics st" by (rule write_body_metrics)
  with Cons w show ?case by (auto simp: Let_def split: if_splits)
qed simp

lemma concat_nonempty: "concat (filter (\<lambda>c. c \<noteq> []) cs) = concat cs"
  by (induction cs) auto

definition served_metrics :: "bytes \<Rightarrow> bytes \<Rightarrow> int \<Rightarrow> token_usage \<Rightarrow> metric_log" where
  "served_metrics c i status u =
     record_usage c i u @ [Requests c i (decimal status), Latency c i, CooldownGauge i 0]"

lemma finish_metrics:
  assumes "finish h name m session status hdrs body st = (res, st')"
  shows "res = Panicked \<and> rt_metrics st' = rt_metrics st
    \<or> res = Served \<and> (\<exists>u. rt_metrics st' = rt_metrics st @ served_metrics name (m_id m) status u
        \<and> (accepts (h_conn h) \<longrightarrow> u = body_usage (hget hdrs ''Content-Type'') (read_all body)))"
proof -
  let ?st1 = "emit [WStatus status] (write_headers hdrs (pin_session h session m st))"
  obtain ob st2 where cs: "copy_stream (h_conn h) (rd_chunks body)
      (new_usage_observer (hget hdrs ''Content-Type'')) ?st1 = (ob, st2)" by force
  have st1: "rt_metrics (write_headers hdrs (pin_session h session m st)) = rt_metrics st"
    by (simp add: write_headers_def pin_session_def)
  then have m: "rt_metrics st2 = rt_metrics st" using copy_stream_metrics [OF cs] by simp
  have "observer_result ob = body_usage (hget hdrs ''Content-Type'') (read_all body)" if "accepts (h_conn h)"
    using copy_stream_full [OF that cs] observer_total [of "filter (\<lambda>c. c \<noteq> []) (rd_chunks body)"]
    by (simp add: concat_nonempty read_all_def)
  with assms cs m st1 show ?thesis
    by (auto simp: finish_def Let_def served_metrics_def split: if_splits)
qed

lemma try_response_metrics:
  assumes "try_response h name session m rp st = (res, st')"
  shows "case res of
      Inl bf \<Rightarrow> \<exists>reason. rt_metrics st' = rt_metrics st @ [Failovers name (m_id m) reason, CooldownGauge (m_id m) 1]
    | Inr Served \<Rightarrow> \<exists>u. rt_metrics st' = rt_metrics st @ served_metrics name (m_id m) (rp_status rp) u
        \<and> (accepts (h_conn h) \<longrightarrow> u = body_usage (hget (rp_header rp) ''Content-Type'') (read_all (rp_body rp)))
    | Inr Panicked \<Rightarrow> rt_metrics st' = rt_metrics st
    | Inr (Exhausted k) \<Rightarrow> False"
  using assms
proof (cases rule: try_response_runs)
  case (final r body)
  then show ?thesis using finish_metrics [OF final(4)] by auto
qed auto

lemma note_sticky_metrics:
  "\<exists>ss. rt_metrics (note_sticky h session m b st) = rt_metrics st @ map StickyHits ss"
proof -
  have "\<exists>ss. [StickyHits r] = map StickyHits ss" for r by (rule exI [of _ "[r]"]) simp
  then show ?thesis
    by (auto simp: note_sticky_def intro: exI [of _ "[]"] split: prod.splits option.splits)
qed

section \<open>What an iteration counts\<close>

text \<open>Between two states the log has grown by failovers from the members \<open>fs\<close>, observations of the members
  \<open>os\<close>, and only by events the client library accepts.\<close>

definition accounts :: "bytes list \<Rightarrow> bytes list \<Rightarrow> 'w rstate \<Rightarrow> 'w rstate \<Rightarrow> bool" where
  "accounts fs os st st' \<longleftrightarrow>
     (\<exists>new. rt_metrics st' = rt_metrics st @ new \<and> failed_over new = fs \<and> observed new = os
        \<and> list_all well_formed_event new)"

text \<open>Between two states the tokens of one body were counted for one client and member, or none were.\<close>

definition meters :: "(bytes \<times> bytes \<times> token_usage) option \<Rightarrow> 'w rstate \<Rightarrow> 'w rstate \<Rightarrow> bool" where
  "meters x st st' \<longleftrightarrow>
     (\<forall>c i. (\<forall>kind. tokens_total c i kind (rt_metrics st') = tokens_total c i kind (rt_metrics st)
            + (case x of Some (c', i', u) \<Rightarrow> if c = c' \<and> i = i' then usage_of_kind kind u else 0 | None \<Rightarrow> 0))
        \<and> thinking_total c i (rt_metrics st') = thinking_total c i (rt_metrics st)
            + (case x of Some (c', i', u) \<Rightarrow> if c = c' \<and> i = i' then max 0 (tu_thinking u) else 0 | None \<Rightarrow> 0))"

lemma accounts_trans: "accounts fs os a b \<Longrightarrow> accounts fs' os' b c \<Longrightarrow> accounts (fs @ fs') (os @ os') a c"
  by (auto simp: accounts_def)

lemma meters_trans: "meters None a b \<Longrightarrow> meters x b c \<Longrightarrow> meters x a c"
  by (simp add: meters_def)

lemma accounts_refl [simp]: "rt_metrics st' = rt_metrics st \<Longrightarrow> accounts [] [] st st'"
  by (simp add: accounts_def)

lemma meters_refl [simp]: "rt_metrics st' = rt_metrics st \<Longrightarrow> meters None st st'"
  by (simp add: meters_def)

lemma quiet_totals [simp]:
  "failed_over (map StickyHits ss) = []" "observed (map StickyHits ss) = []"
  "list_all well_formed_event (map StickyHits ss)"
  "tokens_total c i kind (map StickyHits ss) = 0" "thinking_total c i (map StickyHits ss) = 0"
  by (induction ss) (simp_all add: well_formed_event_iff tokens_total_def thinking_total_def)

lemma step_totals:
  "accounts [] [] st (note_sticky h session m b st)" "meters None st (note_sticky h session m b st)"
  "accounts [m_id m] [] st (transport_failure h name m st)" "meters None st (transport_failure h name m st)"
proof -
  obtain ss where "rt_metrics (note_sticky h session m b st) = rt_metrics st @ map StickyHits ss"
    using note_sticky_metrics by blast
  then show "accounts [] [] st (note_sticky h session m b st)" "meters None st (note_sticky h session m b st)"
    by (simp_all add: accounts_def meters_def)
qed (simp_all add: transport_failure_def Let_def accounts_def meters_def well_formed_event_iff tokens_total_def
    thinking_total_def)

lemma try_response_totals:
  assumes "try_response h name session m rp st = (res, st')"
  shows "case res of
      Inl bf \<Rightarrow> accounts [m_id m] [] st st' \<and> meters None st st'
    | Inr Served \<Rightarrow> accounts [] [m_id m] st st'
        \<and> (accepts (h_conn h) \<longrightarrow> meters (Some (name, m_id m,
              body_usage (hget (rp_header rp) ''Content-Type'') (read_all (rp_body rp)))) st st')
    | Inr Panicked \<Rightarrow> accounts [] [] st st' \<and> meters None st st'
    | Inr (Exhausted k) \<Rightarrow> False"
proof -
  have t: "tokens_total c i kind [Requests a b d, Latency e f, CooldownGauge g x] = 0"
    "thinking_total c i [Requests a b d, Latency e f, CooldownGauge g x] = 0" for c i kind a b d e f g x
    by (simp_all add: tokens_total_def thinking_total_def)
  show ?thesis
    using try_response_metrics [OF assms]
    by (auto simp: accounts_def meters_def served_metrics_def well_formed_event_iff record_usage_totals t
        tokens_total_def [of _ _ _ "[Failovers _ _ _, _]"] thinking_total_def [of _ _ "[Failovers _ _ _, _]"]
        split: sum.splits served.splits)
qed

text \<open>The member that served, what it answered and what was counted for it.\<close>

definition metered_answer ::
  "'w handler \<Rightarrow> request \<Rightarrow> bytes \<Rightarrow> bytes \<Rightarrow> member \<Rightarrow> 'w rstate \<Rightarrow> 'w rstate \<Rightarrow> bool" where
  "metered_answer h rq name body m st st' \<longleftrightarrow>
     (\<exists>rp w w' es. send h rq body m w = (Some rp, w') \<and> rt_out st' = rt_out st @ es \<and> relayed rp es
        \<and> meters (Some (name, m_id m, body_usage (hget (rp_header rp) ''Content-Type'') (rs_body (deliver es)))) st st')"

lemma metered_answer_after:
  "meters None st s \<Longrightarrow> rt_out s = rt_out st \<Longrightarrow> metered_answer h rq name body m s s' \<Longrightarrow>
     metered_answer h rq name body m st s'"
  unfolding metered_answer_def using meters_trans [of st s] by fastforce

lemma served_metered:
  assumes ok: "accepts (h_conn h)" "upstream_ok h" and sent: "send h rq body m w = (Some rp, w')"
    and t: "try_response h name session m rp st = (Inr Served, st')"
  shows "metered_answer h rq name body m st st'"
proof -
  from try_response_result [OF ok sent t] obtain es where es: "rt_out st' = rt_out st @ es" "relayed rp es"
    by (auto split: if_splits)
  then have "rs_body (deliver es) = read_all (rp_body rp)" by (simp add: relayed_def)
  with es sent try_response_totals [OF t] ok(1) show ?thesis unfolding metered_answer_def by auto
qed

lemma serve_step_totals:
  assumes "serve_step h rq name body members a tried l st = (r, st')"
  shows "case r of
      Again m bf \<Rightarrow> accounts [m_id m] [] st st' \<and> meters None st st'
    | Stop Served t \<Rightarrow> \<exists>m \<in> set members. t = tried @ [m_id m] \<and> accounts [] [m_id m] st st'
        \<and> (accepts (h_conn h) \<longrightarrow> upstream_ok h \<longrightarrow> metered_answer h rq name body m st st')
    | Stop (Exhausted k) t \<Rightarrow> t = tried \<and> accounts [] [] st st' \<and> meters None st st'
    | Stop Panicked t \<Rightarrow> accounts [] [] st st'"
  using assms
proof (cases rule: serve_step_runs)
  case no_candidate
  then show ?thesis by simp
next
  case (no_pick b p)
  then have "rt_metrics st' = rt_metrics st" by (metis rstate.select_convs(3) rstate.surjective rstate.update_convs(1))
  with no_pick(3) show ?thesis by auto
next
  case (sent b m w st1 o1 w1)
  let ?s = "st1\<lparr>rt_world := w1\<rparr>"
  have pre: "accounts [] [] st ?s" "meters None st ?s"
    using step_totals(1,2) [of "st\<lparr>rt_world := w\<rparr>" h "session_id rq" m b]
    by (simp_all add: sent(5) accounts_def meters_def)
  have out: "rt_out ?s = rt_out st" by (simp add: sent(5))
  note acc = accounts_trans [OF pre(1), simplified] and met = meters_trans [OF pre(2)]
  from sent(7) show ?thesis
  proof (elim disjE exE conjE)
    assume "r = Again m bad_gateway" "st' = transport_failure h name m ?s"
    then show ?thesis by (simp only: step_result.case acc [OF step_totals(3)] met [OF step_totals(4)])
  next
    fix rp bf
    assume "r = Again m bf" "try_response h name (session_id rq) m rp ?s = (Inl bf, st')"
    then show ?thesis using acc met try_response_totals by fastforce
  next
    fix rp res
    assume stop: "o1 = Some rp" "r = Stop res (tried @ [m_id m])"
      and t: "try_response h name (session_id rq) m rp ?s = (Inr res, st')"
    note totals = try_response_totals [OF t]
    show ?thesis
    proof (cases res)
      case Served
      have "metered_answer h rq name body m st st'" if "accepts (h_conn h)" "upstream_ok h"
        using served_metered [OF that _ t [unfolded Served]] sent(6) stop(1) pre(2) out metered_answer_after by blast
      then show ?thesis using totals Served stop(2) sent(1) acc by auto
    next
      case Panicked
      then show ?thesis using totals stop(2) acc by simp
    next
      case (Exhausted k)
      then show ?thesis using totals by simp
    qed
  qed
qed

lemma serve_loop_totals:
  assumes "serve_loop h rq name body members 0 [] None st = ((res, tried), st')"
  shows "case res of
      Served \<Rightarrow> \<exists>m \<in> set members. accounts (butlast tried) [m_id m] st st' \<and> tried \<noteq> [] \<and> last tried = m_id m
        \<and> (accepts (h_conn h) \<longrightarrow> upstream_ok h \<longrightarrow> metered_answer h rq name body m st st')
    | Exhausted k \<Rightarrow> accounts tried [] st st' \<and> meters None st st'
    | Panicked \<Rightarrow> \<exists>fs. accounts fs [] st st'"
proof (rule serve_loop_rule [OF assms, where I = "\<lambda>a t l s. accounts t [] st s \<and> meters None st s
    \<and> rt_out s = rt_out st"])
  show "accounts (t @ [m_id m]) [] st s' \<and> meters None st s' \<and> rt_out s' = rt_out st"
    if "accounts t [] st s \<and> meters None st s \<and> rt_out s = rt_out st"
      "serve_step h rq name body members b t k s = (Again m bf, s')" for b t k s m bf s'
  proof -
    have "rt_out s' = rt_out s" using that(2) by (cases rule: serve_step_cases) simp_all
    moreover from serve_step_totals [OF that(2)] have "accounts [m_id m] [] s s'" "meters None s s'" by simp_all
    ultimately show ?thesis
      using that(1) accounts_trans [of t "[]" st s "[m_id m]" "[]" s'] meters_trans [of st s None s'] by simp
  qed
  show "case r of
      Served \<Rightarrow> \<exists>m \<in> set members. accounts (butlast t') [m_id m] st s' \<and> t' \<noteq> [] \<and> last t' = m_id m
        \<and> (accepts (h_conn h) \<longrightarrow> upstream_ok h \<longrightarrow> metered_answer h rq name body m st s')
    | Exhausted k \<Rightarrow> accounts t' [] st s' \<and> meters None st s'
    | Panicked \<Rightarrow> \<exists>fs. accounts fs [] st s'"
    if "accounts t [] st s \<and> meters None st s \<and> rt_out s = rt_out st"
      "serve_step h rq name body members b t k s = (Stop r t', s')" for b t k s r t' s'
  proof (cases r)
    case Served
    with serve_step_totals [OF that(2)] obtain m where m: "m \<in> set members" "t' = t @ [m_id m]"
      "accounts [] [m_id m] s s'"
      "accepts (h_conn h) \<longrightarrow> upstream_ok h \<longrightarrow> metered_answer h rq name body m s s'" by auto
    have "accounts t [m_id m] st s'" using accounts_trans that(1) m(3) by fastforce
    moreover have "metered_answer h rq name body m st s'" if "metered_answer h rq name body m s s'"
      using \<open>accounts t [] st s \<and> _\<close> metered_answer_after that by blast
    ultimately show ?thesis using m Served by auto
  next
    case (Exhausted j)
    with serve_step_totals [OF that(2)] have "t' = t" "accounts [] [] s s'" "meters None s s'" by simp_all
    with that(1) Exhausted show ?thesis
      using accounts_trans [of t "[]" st s "[]" "[]" s'] meters_trans [of st s None s'] by simp
  next
    case Panicked
    with serve_step_totals [OF that(2)] have "accounts [] [] s s'" by simp
    with that(1) Panicked show ?thesis
      using accounts_trans [of t "[]" st s "[]" "[]" s'] by auto
  qed
qed simp_all

section \<open>The metrics of a request\<close>

text \<open>Property C14: the metrics tell what happened. Of the members tried, in order, exactly those that failed
  are counted as failed over from; exactly the one that answered, if one did, has its latency
  observed; and every event is one the client library accepts.\<close>

theorem attempts_accounted:
  assumes "serve_loop h rq name body members 0 [] None st = ((res, tried), st')" and "res \<noteq> Panicked"
  shows "\<exists>new. rt_metrics st' = rt_metrics st @ new \<and> list_all well_formed_event new
    \<and> failed_over new = (if res = Served then butlast tried else tried)
    \<and> observed new = (if res = Served then [last tried] else [])"
  using serve_loop_totals [OF assms(1)] assms(2) by (auto simp: accounts_def split: served.splits)

theorem attempts_accounted_witness:
  "\<exists>new. rt_metrics (snd (serve_loop (demo_handler None) demo_request ''alice'' []
       [demo_member ''a'', demo_member ''b''] 0 [] None (start_state ()))) = new
     \<and> failed_over new = [''a''] \<and> observed new = [''b'']"
proof -
  let ?r = "serve_loop (demo_handler None) demo_request ''alice'' [] [demo_member ''a'', demo_member ''b'']
       0 [] None (start_state ())"
  have t: "fst ?r = (Served, [''a'', ''b''])" by code_simp
  have "?r = ((Served, [''a'', ''b'']), snd ?r)" by (simp only: prod_eq_iff fst_conv snd_conv t)
  from attempts_accounted [OF this] show ?thesis by (simp add: start_state_def)
qed

text \<open>Property C10: what is billed is what was delivered. When a request is served, the tokens counted for the
  client and the member that answered are those of the body the caller received, whatever attempts
  failed before; no other client's or member's total changes.\<close>

theorem served_usage_counted:
  assumes "accepts (h_conn h)" and "upstream_ok h"
    and "serve_loop h rq name body members 0 [] None st = ((Served, tried), st')"
  shows "\<exists>m rp w w' es. m \<in> set members \<and> m_id m = last tried \<and> send h rq body m w = (Some rp, w')
    \<and> rt_out st' = rt_out st @ es \<and> relayed rp es
    \<and> (\<forall>c i kind. tokens_total c i kind (rt_metrics st') = tokens_total c i kind (rt_metrics st)
          + (if c = name \<and> i = m_id m
             then usage_of_kind kind (body_usage (hget (rp_header rp) ''Content-Type'') (rs_body (deliver es))) else 0))"
proof -
  from serve_loop_totals [OF assms(3)] assms(1,2) obtain m where "m \<in> set members" "last tried = m_id m"
    "metered_answer h rq name body m st st'" by auto
  moreover from this(3) obtain rp w w' es where "send h rq body m w = (Some rp, w')"
    "rt_out st' = rt_out st @ es" "relayed rp es"
    and u: "meters (Some (name, m_id m,
      body_usage (hget (rp_header rp) ''Content-Type'') (rs_body (deliver es)))) st st'"
    unfolding metered_answer_def by blast
  moreover note u [unfolded meters_def option.case prod.case, THEN spec, THEN spec, THEN conjunct1]
  ultimately show ?thesis by (intro exI conjI allI) (assumption | simp)+
qed

text \<open>An upstream that reports seven output tokens.\<close>

definition metered_response :: up_response where
  "metered_response = \<lparr>rp_status = 200, rp_header = [(''Content-Type'', [''text/event-stream''])],
     rp_body = \<lparr>rd_chunks = [''data: {\"usage\":{\"output'', ''_tokens\":7}}'', nl], rd_fails = False\<rparr>\<rparr>"

definition metered_handler :: "unit handler" where
  "metered_handler = (demo_handler None)\<lparr>h_do := \<lambda>up w. (Some metered_response, w)\<rparr>"

lemma metered_handler_ok: "upstream_ok metered_handler" "accepts (h_conn metered_handler)"
proof -
  have "wf_header (rp_header metered_response)" by code_simp
  then show "upstream_ok metered_handler" "accepts (h_conn metered_handler)"
    by (auto simp: upstream_ok_def metered_handler_def metered_response_def demo_handler_def new_handler_def
        accepts_def demo_conn_def)
qed

lemma metered_can_answer: "can_answer metered_handler demo_request [] I demo_fallback"
proof -
  have "final_response metered_response"
    "build_request (\<lambda>v. ''k'') (\<lambda>f. None) demo_request [] demo_fallback \<noteq> None" by code_simp+
  then show ?thesis
    by (auto simp: can_answer_def send_def metered_handler_def demo_handler_def new_handler_def)
qed

theorem served_usage_counted_witness:
  "\<exists>i \<in> {''a'', ''b''}. tokens_total ''alice'' i ''output'' (rt_metrics (snd (serve_loop metered_handler
     demo_request ''alice'' [] (p_members demo_pool) 0 [] None (start_state ())))) = 7"
proof -
  obtain res tried st' where r: "serve_loop metered_handler demo_request ''alice'' [] (p_members demo_pool) 0 []
      None (start_state ()) = ((res, tried), st')" by (metis prod.exhaust)
  have pool: "weights_ok (p_members demo_pool)" "distinct (map m_id (p_members demo_pool))"
    using demo_pool_ok demo_pool_facts(1) by (simp_all add: weights_ok_def active_ok_def pool_ok_def)
  have "h_store metered_handler = None" by (simp add: metered_handler_def demo_handler_def new_handler_def)
  from serve_loop_outcome [OF metered_handler_ok(2,1) pool(1) spares_without_redis [OF this] _ demo_pool_facts(3,2)
      metered_can_answer pool(2) r]
  have "res = Served" by simp
  have u: "usage_of_kind ''output'' (body_usage (hget (rp_header metered_response) ''Content-Type'')
      (read_all (rp_body metered_response))) = 7" by code_simp
  obtain m rp w w' es where m: "m \<in> set (p_members demo_pool)" "relayed rp es"
    and send: "send metered_handler demo_request [] m w = (Some rp, w')"
    and total: "\<And>c i kind. tokens_total c i kind (rt_metrics st') = tokens_total c i kind (rt_metrics (start_state ()))
          + (if c = ''alice'' \<and> i = m_id m
             then usage_of_kind kind (body_usage (hget (rp_header rp) ''Content-Type'') (rs_body (deliver es))) else 0)"
    using served_usage_counted [OF metered_handler_ok(2,1) r [unfolded \<open>res = Served\<close>]] by blast
  have rp: "rp = metered_response"
    using send by (auto simp: send_def metered_handler_def split: option.splits)
  with m(2) have "rs_body (deliver es) = read_all (rp_body metered_response)" by (simp add: relayed_def)
  then have "tokens_total ''alice'' (m_id m) ''output'' (rt_metrics st') = 7"
    using total [of "''alice''" "m_id m" "''output''"] rp u by (simp add: start_state_def tokens_total_def)
  moreover have "map m_id (p_members demo_pool) = [''a'', ''b'']" by code_simp
  then have "m_id m \<in> set [''a'', ''b'']" using m(1) by (metis in_set_conv_nth length_map nth_map nth_mem)
  ultimately show ?thesis using r by auto
qed

section \<open>Nothing the client library would panic on\<close>

lemma http_error_metrics: "rt_metrics (http_error conn msg code st) = rt_metrics st"
  unfolding http_error_def by (rule trans [OF write_body_metrics [OF prod.collapse [symmetric]]]) simp

lemma answer_failure_metrics: "answer_failure h l st = (ok, st') \<Longrightarrow> rt_metrics st' = rt_metrics st"
proof -
  assume a: "answer_failure h l st = (ok, st')"
  have "rt_metrics (snd (write_body (h_conn h) b (emit es (write_headers hd st)))) = rt_metrics st" for b es hd
    by (rule trans [OF write_body_metrics [OF prod.collapse [symmetric]]]) (simp add: write_headers_def)
  then show ?thesis
    using a by (auto simp: answer_failure_def Let_def write_headers_def http_error_metrics
        split: option.splits if_splits)
qed

lemma serve_http_accounts:
  assumes "serve_http h rq st = (ok, st')"
  shows "\<exists>fs os. accounts fs os st st'"
proof (cases "\<exists>p. h_active h = Some p \<and> p_members p \<noteq> []")
  case False
  with assms have "rt_metrics st' = rt_metrics st"
    by (auto simp: serve_http_def http_error_metrics split: option.splits)
  then show ?thesis using accounts_refl by blast
next
  case True
  then obtain p where p: "h_active h = Some p" "p_members p \<noteq> []" by blast
  obtain res tried st1 where l: "serve_loop h rq (client_name rq)
      (case fst (clone_body (rq_body rq)) of Inl e \<Rightarrow> [] | Inr b \<Rightarrow> b) (p_members p) 0 [] None st
      = ((res, tried), st1)" by (metis prod.exhaust)
  note totals = serve_loop_totals [OF l]
  have "rt_metrics st' = rt_metrics st1"
    using assms p l answer_failure_metrics by (cases res) (auto simp: serve_http_def)
  moreover have "\<exists>fs os. accounts fs os st st1" using totals by (cases res) auto
  ultimately show ?thesis by (simp add: accounts_def)
qed

section \<open>Whom the metrics name\<close>

text \<open>An event of a request of the client \<open>name\<close>: its client label, if it has one, is that name.\<close>

fun charged :: "bytes \<Rightarrow> metric_event \<Rightarrow> bool" where
  "charged name (Requests c m code) = (c = name)"
| "charged name (Failovers c m r) = (c = name)"
| "charged name (Tokens c m k n) = (c = name)"
| "charged name (Latency c m) = (c = name)"
| "charged name (ThinkingTokens c m n) = (c = name)"
| "charged name (CooldownGauge m v) = True"
| "charged name (StickyHits r) = True"
| "charged name (AuthFailures r) = False"
| "charged name (ConfigReloads r) = False"

definition charges :: "bytes \<Rightarrow> 'w rstate \<Rightarrow> 'w rstate \<Rightarrow> bool" where
  "charges name st st' \<longleftrightarrow> (\<exists>new. rt_metrics st' = rt_metrics st @ new \<and> list_all (charged name) new)"

lemma charges_quiet: "rt_metrics st' = rt_metrics st \<Longrightarrow> charges name st st'"
  by (simp add: charges_def)

lemma charges_trans: "charges name a b \<Longrightarrow> charges name b c \<Longrightarrow> charges name a c"
  by (auto simp: charges_def)

lemma charged_hits: "list_all (charged name) (map StickyHits ss)"
  by (induction ss) simp_all

lemma note_sticky_charges: "charges name st (note_sticky h session m b st)"
  using note_sticky_metrics [of h session m b st] charged_hits by (auto simp: charges_def)

lemma transport_failure_charges: "charges name st (transport_failure h name m st)"
  by (simp add: transport_failure_def Let_def charges_def)

lemma try_response_charges:
  assumes "try_response h name session m rp st = (res, st')"
  shows "charges name st st'"
proof -
  have "list_all (charged name) (served_metrics name i status u)" for i status u
    by (simp add: served_metrics_def record_usage_def add_tokens_def)
  then show ?thesis
    using try_response_metrics [OF assms] by (auto simp: charges_def split: sum.splits served.splits)
qed

lemma serve_step_charges:
  assumes "serve_step h rq name body members a tried l st = (r, st')"
  shows "charges name st st'"
  using assms
proof (cases rule: serve_step_runs)
  case no_candidate
  then show ?thesis by (simp add: charges_quiet)
next
  case (no_pick b p)
  then show ?thesis
    by (intro charges_quiet) (metis rstate.select_convs(3) rstate.surjective rstate.update_convs(1))
next
  case (sent b m w st1 o1 w1)
  have "charges name (st\<lparr>rt_world := w\<rparr>) st1" unfolding sent(5) by (rule note_sticky_charges)
  then have "charges name st (st1\<lparr>rt_world := w1\<rparr>)" by (simp add: charges_def)
  moreover have "charges name (st1\<lparr>rt_world := w1\<rparr>) st'"
    using sent(7) transport_failure_charges try_response_charges by blast
  ultimately show ?thesis by (rule charges_trans)
qed

lemma serve_loop_charges:
  assumes "serve_loop h rq name body members 0 [] None st = ((res, tried), st')"
  shows "charges name st st'"
  by (rule serve_loop_rule [OF assms, where I = "\<lambda>a t l s. charges name st s"])
    (auto intro: charges_trans serve_step_charges charges_quiet)

lemma serve_http_charges:
  assumes "serve_http h rq st = (ok, st')"
  shows "charges (client_name rq) st st'"
proof (cases "\<exists>p. h_active h = Some p \<and> p_members p \<noteq> []")
  case False
  with assms show ?thesis
    by (intro charges_quiet) (auto simp: serve_http_def http_error_metrics split: option.splits)
next
  case True
  then obtain p where p: "h_active h = Some p" "p_members p \<noteq> []" by blast
  obtain res tried st1 where l: "serve_loop h rq (client_name rq) (sent_body rq) (p_members p) 0 [] None st
      = ((res, tried), st1)" by (metis prod.exhaust)
  have "rt_metrics st' = rt_metrics st1"
    using assms p l answer_failure_metrics by (cases res) (auto simp: serve_http_def sent_body_def)
  with serve_loop_charges [OF l] show ?thesis by (simp add: charges_def)
qed

end
