(* ===== verification/Server.thy ===== *)
theory Server
  imports App Handler_Accounts
begin

text \<open>
  The running server: requests in flight while the two files change and other instances act. net/http
  runs every request in a goroutine of its own; a request takes the registry of the moment it is
  authenticated and the pool of the moment it is served, which may be different moments, and
  everything it shares with other requests goes through the world. The steps of the transition
  system are a request's arrival, its service, an input of one of the watchers, and anything that
  happens outside.
\<close>

section \<open>When a request can panic\<close>

text \<open>Whatever the members answer to this request, \<open>WriteHeader\<close> takes its status.\<close>

definition valid_answers :: "'w handler \<Rightarrow> request \<Rightarrow> bytes \<Rightarrow> member list \<Rightarrow> bool" where
  "valid_answers h rq body members \<longleftrightarrow>
     (\<forall>m \<in> set members. \<forall>w rp w'. send h rq body m w = (Some rp, w') \<longrightarrow> valid_status (rp_status rp))"

definition last_valid :: "buffered option \<Rightarrow> bool" where
  "last_valid l \<longleftrightarrow> (case l of None \<Rightarrow> True | Some bf \<Rightarrow> valid_status (bf_status bf))"

lemma serve_step_valid:
  assumes ok: "weights_ok members" "valid_answers h rq body members" "last_valid l"
    and step: "serve_step h rq name body members a tried l st = (r, st')"
  shows "case r of
      Again m bf \<Rightarrow> last_valid (Some bf)
    | Stop res t \<Rightarrow> res = Served \<or> (\<exists>k. res = Exhausted k \<and> last_valid k)"
  using step
proof (cases rule: serve_step_runs)
  case no_candidate
  with ok(3) show ?thesis by simp
next
  case (no_pick b p)
  have "weights_ok (filter_not_tried members tried)"
    unfolding filter_not_tried_def by (rule weights_ok_filter [OF ok(1)])
  from router_pick_total [OF this, where st = "h_store h" and intn = "h_intn h" and session = "session_id rq"
      and sticky = b and w = "rt_world st"] no_pick ok(3)
  show ?thesis by auto
next
  case (sent b m w st1 o1 w1)
  have valid: "valid_status (rp_status rp)" if "o1 = Some rp" for rp
    using ok(2) sent(1,6) that unfolding valid_answers_def by blast
  from sent(7) show ?thesis
  proof (elim disjE exE conjE)
    fix rp bf
    assume "o1 = Some rp" "r = Again m bf"
      and t: "try_response h name (session_id rq) m rp (st1\<lparr>rt_world := w1\<rparr>) = (Inl bf, st')"
    then show ?thesis
      using try_response_out [OF t] valid by (auto simp: last_valid_def buffer_response_def)
  next
    fix rp res
    assume "o1 = Some rp" "r = Stop res (tried @ [m_id m])"
      and t: "try_response h name (session_id rq) m rp (st1\<lparr>rt_world := w1\<rparr>) = (Inr res, st')"
    then show ?thesis
      using try_response_out [OF t] valid by (auto split: served.splits)
  qed (simp add: last_valid_def bad_gateway_def valid_status_def)
qed

lemma serve_loop_valid:
  assumes "weights_ok members" "valid_answers h rq body members"
    and loop: "serve_loop h rq name body members 0 [] None st = ((res, tried), st')"
  shows "res = Served \<or> (\<exists>k. res = Exhausted k \<and> last_valid k)"
proof (rule serve_loop_rule [OF loop, where I = "\<lambda>a t l s. last_valid l"])
  show "last_valid (Some bf)"
    if "last_valid l" "serve_step h rq name body members a t l s = (Again m bf, s')" for a t l s m bf s'
    using serve_step_valid [OF assms(1,2) that] by simp
  show "r = Served \<or> (\<exists>k. r = Exhausted k \<and> last_valid k)"
    if "last_valid l" "serve_step h rq name body members a t l s = (Stop r t', s')" for a t l s r t' s'
    using serve_step_valid [OF assms(1,2) that] by simp
qed (simp_all add: last_valid_def)

lemma answer_failure_returns: "last_valid l \<Longrightarrow> fst (answer_failure h l st)"
  by (auto simp: answer_failure_def last_valid_def Let_def split: option.splits)

text \<open>Why a request panicked: the weights of the pool overflow, or a member can answer it with a status
  outside 100 to 999.\<close>

lemma serve_http_panics:
  assumes "serve_http h rq st = (False, st')"
  shows "\<exists>p. h_active h = Some p
    \<and> (\<not> weights_ok (p_members p) \<or> \<not> valid_answers h rq (sent_body rq) (p_members p))"
proof -
  obtain p where p: "h_active h = Some p" "p_members p \<noteq> []"
    using assms by (auto simp: serve_http_def split: option.splits if_splits)
  obtain res tried st1 where l: "serve_loop h rq (client_name rq) (sent_body rq) (p_members p) 0 [] None st
      = ((res, tried), st1)" by (metis prod.exhaust)
  have "fst (serve_http h rq st)" if "weights_ok (p_members p)" "valid_answers h rq (sent_body rq) (p_members p)"
    using serve_loop_valid [OF that l] p l
    by (auto simp: serve_http_def sent_body_def answer_failure_returns)
  with assms p(1) show ?thesis by auto
qed

text \<open>What a panic leaves: no status and no byte of a body has been written.\<close>

lemma try_response_panic_out:
  assumes "try_response h name session m rp st = (Inr Panicked, st')"
  shows "\<exists>hs. rt_out st' = rt_out st @ hs \<and> list_all header_event hs"
  using assms
proof (cases rule: try_response_runs)
  case (final r body)
  have "rt_out (pin_session h session m st) = rt_out st" by (simp add: pin_session_def)
  moreover have "st' = write_headers (rp_header rp) (pin_session h session m st)"
    using final(1,4) by (auto simp: finish_def Let_def split: if_splits prod.splits)
  ultimately show ?thesis using write_headers_out by metis
qed simp

lemma serve_step_panic_out:
  assumes "serve_step h rq name body members a tried l st = (Stop Panicked t, st')"
  shows "\<exists>hs. rt_out st' = rt_out st @ hs \<and> list_all header_event hs"
  using assms
proof (cases rule: serve_step_runs)
  case (no_pick b p)
  then have "rt_out st' = rt_out st" by (metis rstate.select_convs(2) rstate.surjective rstate.update_convs(1))
  then show ?thesis by (intro exI [of _ "[]"]) simp
next
  case (sent b m w st1 o1 w1)
  then have out: "rt_out (st1\<lparr>rt_world := w1\<rparr>) = rt_out st" by simp
  from sent(7) obtain rp where
    "try_response h name (session_id rq) m rp (st1\<lparr>rt_world := w1\<rparr>) = (Inr Panicked, st')" by auto
  from try_response_panic_out [OF this] out show ?thesis by simp
qed auto

lemma serve_loop_panic_out:
  assumes "serve_loop h rq name body members 0 [] None st = ((res, tried), st')"
  shows "res = Panicked \<longrightarrow> (\<exists>hs. rt_out st' = rt_out st @ hs \<and> list_all header_event hs)"
proof (rule serve_loop_rule [OF assms, where I = "\<lambda>a t l s. rt_out s = rt_out st"])
  show "rt_out s' = rt_out st"
    if "rt_out s = rt_out st" "serve_step h rq name body members a t l s = (Again m bf, s')" for a t l s m bf s'
    using that(2) by (cases rule: serve_step_cases) (use that(1) in simp_all)
  show "r = Panicked \<longrightarrow> (\<exists>hs. rt_out s' = rt_out st @ hs \<and> list_all header_event hs)"
    if "rt_out s = rt_out st" "serve_step h rq name body members a t l s = (Stop r t', s')" for a t l s r t' s'
    using serve_step_panic_out that by metis
qed simp_all

lemma serve_http_panic_out:
  assumes "serve_http h rq st = (False, st')"
  shows "\<exists>hs. rt_out st' = rt_out st @ hs \<and> list_all header_event hs"
proof -
  obtain p where p: "h_active h = Some p" "p_members p \<noteq> []"
    using assms by (auto simp: serve_http_def split: option.splits if_splits)
  obtain res tried st1 where l: "serve_loop h rq (client_name rq) (sent_body rq) (p_members p) 0 [] None st
      = ((res, tried), st1)" by (metis prod.exhaust)
  show ?thesis
  proof (cases res)
    case (Exhausted k)
    then have "answer_failure h k st1 = (False, st')" using assms p l by (simp add: serve_http_def sent_body_def)
    then have "\<exists>hd. st' = write_headers hd st1"
      by (auto simp: answer_failure_def Let_def split: option.splits if_splits)
    moreover have "rt_out st1 = rt_out st" using serve_loop_answers [OF l] Exhausted by auto
    ultimately show ?thesis using write_headers_out by metis
  next
    case Panicked
    then have "st' = st1" using assms p l by (simp add: serve_http_def sent_body_def)
    with serve_loop_panic_out [OF l] Panicked show ?thesis by simp
  next
    case Served
    then show ?thesis using assms p l by (simp add: serve_http_def sent_body_def)
  qed
qed

section \<open>The server as a transition system\<close>

record pending =
  pn_number :: nat                     \<comment> \<open>in the order of arrival\<close>
  pn_request :: request
  pn_clients :: "(registry, client_load_error) watch_state"    \<comment> \<open>the registry it is authenticated against\<close>

record answered =
  an_pending :: pending
  an_returned :: bool
  an_events :: "wevent list"
  an_counted :: metric_log

record 'w proxy =
  px_app :: "'w app"
  px_world :: 'w
  px_metrics :: metric_log             \<comment> \<open>what requests have counted; \<open>ap_metrics\<close> has the reloads\<close>
  px_log :: "log_line list"
  px_arrived :: nat
  px_pending :: "pending list"
  px_answered :: "answered list"

datatype 'w server_input = Arrives request | Serves nat | Reloads app_input | Elsewhere 'w

text \<open>A request starts with a fresh response and no scope.\<close>

definition request_state :: "'w proxy \<Rightarrow> 'w rstate" where
  "request_state s = \<lparr>rt_world = px_world s, rt_out = [], rt_metrics = [], rt_log = [], rt_scope = None\<rparr>"

definition serve_pending ::
  "(route list \<Rightarrow> bytes \<Rightarrow> bytes \<Rightarrow> nat option) \<Rightarrow> 'w http_handler \<Rightarrow> 'w env \<Rightarrow> pending \<Rightarrow> 'w proxy
     \<Rightarrow> bool \<times> 'w rstate" where
  "serve_pending mux fallback env p s =
     app_handler mux fallback env ((px_app s)\<lparr>ap_clients := pn_clients p\<rparr>) (pn_request p) (request_state s)"

fun server_step ::
  "(route list \<Rightarrow> bytes \<Rightarrow> bytes \<Rightarrow> nat option) \<Rightarrow> 'w http_handler \<Rightarrow> 'w env
     \<Rightarrow> (bytes \<Rightarrow> pool option) \<Rightarrow> (bytes \<Rightarrow> client list option) \<Rightarrow> 'w server_input \<Rightarrow> 'w proxy \<Rightarrow> 'w proxy" where
  "server_step mux fallback env up uc (Arrives rq) s =
     s\<lparr>px_arrived := Suc (px_arrived s), px_pending := px_pending s
         @ [\<lparr>pn_number = px_arrived s, pn_request = rq, pn_clients = ap_clients (px_app s)\<rparr>]\<rparr>"
| "server_step mux fallback env up uc (Serves i) s =
     (if i < length (px_pending s) then
        let p = px_pending s ! i in
        case serve_pending mux fallback env p s of
          (ok, st) \<Rightarrow>
            s\<lparr>px_world := rt_world st, px_metrics := px_metrics s @ rt_metrics st, px_log := px_log s @ rt_log st,
              px_pending := take i (px_pending s) @ drop (Suc i) (px_pending s),
              px_answered := px_answered s @ [\<lparr>an_pending = p, an_returned = ok, an_events = rt_out st,
                an_counted = rt_metrics st\<rparr>]\<rparr>
      else s)"
| "server_step mux fallback env up uc (Reloads inp) s = s\<lparr>px_app := app_step up uc inp (px_app s)\<rparr>"
| "server_step mux fallback env up uc (Elsewhere w) s = s\<lparr>px_world := w\<rparr>"

definition server_start :: "'w app \<Rightarrow> 'w \<Rightarrow> 'w proxy" where
  "server_start a w = \<lparr>px_app = a, px_world = w, px_metrics = [], px_log = [], px_arrived = 0,
     px_pending = [], px_answered = []\<rparr>"

section \<open>A token that is taken out of the file\<close>

text \<open>How an answer came about.\<close>

definition answer_of ::
  "(route list \<Rightarrow> bytes \<Rightarrow> bytes \<Rightarrow> nat option) \<Rightarrow> 'w http_handler \<Rightarrow> 'w env \<Rightarrow> 'w proxy \<Rightarrow> answered \<Rightarrow> bool" where
  "answer_of mux fallback env s an \<longleftrightarrow> (\<exists>st. serve_pending mux fallback env (an_pending an) s = (an_returned an, st)
     \<and> an_events an = rt_out st \<and> an_counted an = rt_metrics st)"

text \<open>From the moment at which \<open>n\<close> requests have arrived, every later one is authenticated against \<open>r\<close>.\<close>

definition authenticated_by ::
  "(route list \<Rightarrow> bytes \<Rightarrow> bytes \<Rightarrow> nat option) \<Rightarrow> 'w http_handler \<Rightarrow> 'w env \<Rightarrow> registry \<Rightarrow> nat \<Rightarrow> 'w proxy \<Rightarrow> bool" where
  "authenticated_by mux fallback env r n s \<longleftrightarrow> client_active (ap_clients (px_app s)) = Some r \<and> n \<le> px_arrived s
     \<and> (\<forall>p \<in> set (px_pending s). n \<le> pn_number p \<longrightarrow> client_active (pn_clients p) = Some r)
     \<and> (\<forall>an \<in> set (px_answered s). n \<le> pn_number (an_pending an) \<longrightarrow>
          client_active (pn_clients (an_pending an)) = Some r \<and> (\<exists>s'. answer_of mux fallback env s' an))"

lemma authenticated_by_step:
  assumes "authenticated_by mux fallback env r n s" and "\<And>i. inp \<noteq> Reloads (ClientInput i)"
  shows "authenticated_by mux fallback env r n (server_step mux fallback env up uc inp s)"
proof (cases inp)
  case (Arrives rq)
  with assms(1) show ?thesis by (auto simp: authenticated_by_def)
next
  case (Serves i)
  show ?thesis
  proof (cases "i < length (px_pending s)")
    case True
    let ?p = "px_pending s ! i"
    obtain r' st where r: "serve_pending mux fallback env ?p s = (r', st)" by force
    then have "answer_of mux fallback env s \<lparr>an_pending = ?p, an_returned = r', an_events = rt_out st, an_counted = rt_metrics st\<rparr>"
      by (simp add: answer_of_def)
    moreover have "set (take i (px_pending s) @ drop (Suc i) (px_pending s)) \<subseteq> set (px_pending s)" "?p \<in> set (px_pending s)"
      using True set_take_subset [of i "px_pending s"] set_drop_subset [of "Suc i" "px_pending s"] by auto
    ultimately show ?thesis
      using assms(1) Serves True r by (auto simp: authenticated_by_def Let_def)
  qed (use assms Serves in simp)
next
  case (Reloads j)
  with assms obtain k where "j = PoolInput k" by (cases j) auto
  with Reloads assms(1) show ?thesis by (simp add: authenticated_by_def app_step_def Let_def)
next
  case (Elsewhere w)
  with assms(1) show ?thesis by (simp add: authenticated_by_def)
qed

lemma authenticated_by_run:
  assumes "authenticated_by mux fallback env r n s" and "\<forall>inp \<in> set is. \<forall>i. inp \<noteq> Reloads (ClientInput i)"
  shows "authenticated_by mux fallback env r n (fold (server_step mux fallback env up uc) is s)"
  using assms
proof (induction "is" arbitrary: s)
  case (Cons inp "is")
  then show ?case using authenticated_by_step [OF Cons.prems(1), of inp up uc] by simp
qed simp

lemma chain_rejects:
  assumes r: "client_active (ap_clients a) = Some r" "indexed_ok r"
    and none: "\<And>c. \<not> admits r (presented_token (rq_header rq)) c"
    and run: "proxy_chain env a rq st = (ok, st')"
  shows "ok \<and> (\<exists>es code reason. rt_out st' = rt_out st @ es \<and> answers es \<and> WStatus code \<in> set es \<and> code \<in> {401, 403}
    \<and> rt_metrics st' = rt_metrics st @ [AuthFailures reason])"
proof -
  obtain code reason ty msg attrs where code: "code \<in> {401, 403}"
    and rej: "\<And>(handler :: 'a http_handler) s. auth (en_conn env) (Some r) handler rq s =
      (True, reject (en_conn env) rq code reason ty msg attrs s)"
    using auth_rejects [of "Some r" rq "en_conn env"] r(2) none by (metis option.inject)
  have g: "guarded env a rq s = (True, reject (en_conn env) rq code reason ty msg attrs s)" for s
    by (simp add: guarded_def r(1) rej)
  have a: "\<exists>es. rt_out (reject (en_conn env) rq code reason ty msg attrs s) = rt_out s @ es \<and> answers es
      \<and> WStatus code \<in> set es \<and> rt_metrics (reject (en_conn env) rq code reason ty msg attrs s)
          = rt_metrics s @ [AuthFailures reason]" for s :: "'a rstate"
    using reject_answers [of "en_conn env" rq code reason ty msg attrs s] by auto
  show ?thesis
    using run a [of "st\<lparr>rt_scope := Some \<lparr>sc_ip = from_request (Some (ap_resolver a)) (rq_header rq)
        (rq_remote rq), sc_client = []\<rparr>, rt_out := []\<rparr>"] a [of "st\<lparr>rt_scope := Some \<lparr>sc_ip = from_request (Some (ap_resolver a))
        (rq_header rq) (rq_remote rq), sc_client = []\<rparr>\<rparr>"] code
    by (auto simp: layer_defs access_log_def g Let_def log_line_def split: if_splits)
qed

text \<open>Numbers are given out once.\<close>

lemma numbers_below:
  assumes "reached (server_step mux fallback env up uc) (server_start a w) s"
  shows "(\<forall>p \<in> set (px_pending s). pn_number p < px_arrived s)
    \<and> (\<forall>an \<in> set (px_answered s). pn_number (an_pending an) < px_arrived s)"
  using assms
proof (induction "server_start a w" s rule: reached.induct)
  case here
  then show ?case by (simp add: server_start_def)
next
  case (next_input t inp)
  show ?case
  proof (cases inp)
    case (Serves i)
    with next_input(2) show ?thesis
      using set_take_subset [of i "px_pending t"] set_drop_subset [of "Suc i" "px_pending t"]
      by (auto simp: Let_def split: prod.splits)
  qed (use next_input(2) in auto)
qed

text \<open>Property C3: revocation takes effect with the reload. Once a file that no longer admits a token has been
  loaded, and until the next event of that file, every request that arrives with the token on a
  proxied path is answered 401 or 403 and nothing else is done for it, whatever else arrives, is
  served, reloaded or happens outside meanwhile.\<close>

theorem revoked_token_rejected:
  assumes run: "reached (server_step mux fallback env up uc) (server_start a w) s0"
    and reload: "ws_running (ap_clients (px_app s0))" "wants_reload ops" "load_registry uc (Some content) = Inr r"
      "s1 = server_step mux fallback env up uc (Reloads (ClientInput (FsEvent ops (Some content)))) s0"
    and after: "\<forall>inp \<in> set is. \<forall>i. inp \<noteq> Reloads (ClientInput i)"
      "s2 = fold (server_step mux fallback env up uc) is s1"
    and an: "an \<in> set (px_answered s2)" "px_arrived s1 \<le> pn_number (an_pending an)" "rq = pn_request (an_pending an)"
    and token: "\<And>c. \<not> admits r (presented_token (rq_header rq)) c"
    and path: "mux_ok mux" "has_prefix ''/'' (rq_path rq)" "rq_path rq \<noteq> ''/api/hello''" "rq_path rq \<noteq> ''/health''"
  shows "an_returned an \<and> answers (an_events an) \<and> (\<exists>code \<in> {401, 403}. WStatus code \<in> set (an_events an))
    \<and> (\<exists>reason. an_counted an = [AuthFailures reason])"
proof -
  have "client_active (ap_clients (px_app s1)) = Some r"
    using reload by (simp add: app_step_def client_loader_defs Let_def)
  moreover have "px_pending s1 = px_pending s0" "px_answered s1 = px_answered s0" "px_arrived s1 = px_arrived s0"
    by (simp_all add: reload(4))
  ultimately have "authenticated_by mux fallback env r (px_arrived s1) s1"
    using numbers_below [OF run] unfolding authenticated_by_def by (auto simp: not_le)
  from authenticated_by_run [OF this after(1), of up uc] an(1,2) after(2)
  obtain s' where r: "client_active (pn_clients (an_pending an)) = Some r" and "answer_of mux fallback env s' an"
    unfolding authenticated_by_def by blast
  then obtain st where st: "serve_pending mux fallback env (an_pending an) s' = (an_returned an, st)"
    "an_events an = rt_out st" "an_counted an = rt_metrics st" unfolding answer_of_def by blast
  let ?a = "(px_app s')\<lparr>ap_clients := pn_clients (an_pending an)\<rparr>"
  have "app_handler mux fallback env ?a rq (request_state s') = proxy_chain env ?a rq (request_state s')"
    using path(2-4) unfolding app_handler_def mux_choice [OF path(1)] by simp
  with st(1) an(3) have "proxy_chain env ?a rq (request_state s') = (an_returned an, st)"
    by (simp add: serve_pending_def)
  from chain_rejects [OF _ load_registry_ok [OF reload(3)] token this] r st(2,3) show ?thesis
    by (auto simp: request_state_def)
qed

section \<open>Every answer is accounted for\<close>

text \<open>A request on a fresh connection that is admitted is served by the handler for that client, and no
  layer adds to its answer or to what is counted.\<close>

lemma chain_admits:
  assumes r: "client_active (ap_clients a) = Some r" "indexed_ok r"
    and adm: "admits r (presented_token (rq_header rq)) c"
    and fresh: "rt_out st = []" "rt_metrics st = []" and run: "proxy_chain env a rq st = (ok, st')"
  shows "\<exists>s1 s2. serve_http (pool_handler env a) (authenticated rq (c_name c)) s1 = (ok, s2)
    \<and> rt_out s1 = [] \<and> rt_metrics s1 = [] \<and> rt_out st' = rt_out s2 \<and> rt_metrics st' = rt_metrics s2"
proof -
  let ?serve = "serve_http (pool_handler env a) (authenticated rq (c_name c))"
  let ?st = "st\<lparr>rt_scope := Some \<lparr>sc_ip = from_request (Some (ap_resolver a)) (rq_header rq) (rq_remote rq),
    sc_client = []\<rparr>\<rparr>"
  have g: "guarded env a rq s = ?serve (tag_scope (c_name c) s)" for s
    by (simp add: guarded_def r(1) auth_passes [OF r(2) adm, THEN conjunct1])
  have t: "rt_out (tag_scope (c_name c) s) = rt_out s" "rt_metrics (tag_scope (c_name c) s) = rt_metrics s"
    for s :: "'a rstate" by (simp_all add: tag_scope_def)
  show ?thesis
  proof (cases "cf_access_log (ap_cfg a) \<and> rq_path rq \<noteq> ''/health''")
    case True
    obtain ok' s2 where s2: "?serve (tag_scope (c_name c) (?st\<lparr>rt_out := []\<rparr>)) = (ok', s2)" by force
    with run True fresh have "ok' = ok" "rt_out st' = rt_out s2" "rt_metrics st' = rt_metrics s2"
      by (auto simp: layer_defs access_log_def g Let_def log_line_def split: if_splits)
    with s2 t fresh show ?thesis by (intro exI [of _ "tag_scope (c_name c) (?st\<lparr>rt_out := []\<rparr>)"] exI [of _ s2]) simp
  next
    case False
    with run have "?serve (tag_scope (c_name c) ?st) = (ok, st')"
      by (cases "cf_access_log (ap_cfg a)") (auto simp: layer_defs access_log_def g)
    with t fresh show ?thesis by (intro exI [of _ "tag_scope (c_name c) ?st"] exI [of _ st']) simp
  qed
qed

text \<open>A state of the run in which the answer came about, and what the two files had published: to the request
  when it arrived, and to the pool when it was served.\<close>

definition accounted ::
  "(route list \<Rightarrow> bytes \<Rightarrow> bytes \<Rightarrow> nat option) \<Rightarrow> 'w http_handler \<Rightarrow> 'w env
     \<Rightarrow> (bytes \<Rightarrow> pool option) \<Rightarrow> (bytes \<Rightarrow> client list option) \<Rightarrow> 'w proxy \<Rightarrow> answered \<Rightarrow> bool" where
  "accounted mux fallback env up uc s0 an \<longleftrightarrow> client_cfg.serving (pn_clients (an_pending an))
     \<and> (\<exists>t. reached (server_step mux fallback env up uc) s0 t \<and> pool_cfg.serving (ap_pool (px_app t))
          \<and> answer_of mux fallback env t an)"

lemma app_step_serving:
  "pool_cfg.serving (ap_pool a) \<Longrightarrow> pool_cfg.serving (ap_pool (app_step up uc inp a))"
  "client_cfg.serving (ap_clients a) \<Longrightarrow> client_cfg.serving (ap_clients (app_step up uc inp a))"
  by (cases inp; auto simp: app_step_def Let_def intro: pool_cfg.step_serving client_cfg.step_serving)+

lemma reached_accounted:
  assumes "reached (server_step mux fallback env up uc) s0 s"
    and "s0 = server_start a w" "pool_cfg.serving (ap_pool a)" "client_cfg.serving (ap_clients a)"
  shows "pool_cfg.serving (ap_pool (px_app s)) \<and> client_cfg.serving (ap_clients (px_app s))
    \<and> (\<forall>p \<in> set (px_pending s). client_cfg.serving (pn_clients p))
    \<and> (\<forall>an \<in> set (px_answered s). accounted mux fallback env up uc s0 an)"
  using assms
proof (induction rule: reached.induct)
  case (here s0)
  then show ?case by (simp add: server_start_def)
next
  case (next_input s0 t inp)
  note IH = next_input.IH [OF next_input.prems]
  show ?case
  proof (cases inp)
    case (Serves i)
    show ?thesis
    proof (cases "i < length (px_pending t)")
      case True
      let ?p = "px_pending t ! i"
      obtain ok st where r: "serve_pending mux fallback env ?p t = (ok, st)" by force
      let ?an = "\<lparr>an_pending = ?p, an_returned = ok, an_events = rt_out st, an_counted = rt_metrics st\<rparr>"
      have "answer_of mux fallback env t ?an" using r by (simp add: answer_of_def)
      moreover have "?p \<in> set (px_pending t)" using True by simp
      ultimately have "accounted mux fallback env up uc s0 ?an"
        using IH next_input.hyps unfolding accounted_def by fastforce
      then show ?thesis
        using IH Serves True r set_take_subset [of i "px_pending t"] set_drop_subset [of "Suc i" "px_pending t"]
        by (auto simp: Let_def)
    qed (use IH Serves in simp)
  qed (use IH app_step_serving in auto)
qed

text \<open>Property C2: every answer is accounted for. However requests, reloads of the two files and outside
  events interleave after a start, a request on a proxied path that is done was judged by a valid
  registry, the one in force when it arrived. Without the token of an enabled client it was rejected,
  and only the rejection was counted. With the token of a client, everything counted for it names
  that client, and the client library accepts it; and it was answered exactly once, or it panicked
  before any status or body was written. It panics only if the weights of the pool it was served
  from sum to more than the largest \<open>int\<close>, or a member of that pool can answer it with a status outside
  100 to 999.\<close>

theorem every_answer_accounted:
  assumes start: "app_new cfg (pool_new_loader up pc pw pa pp) (client_new_loader uc cc cw ca cp) redis = Inr a"
    and run: "reached (server_step mux fallback env up uc) (server_start a w) s"
    and an: "an \<in> set (px_answered s)" "rq = pn_request (an_pending an)"
    and path: "mux_ok mux" "has_prefix ''/'' (rq_path rq)" "rq_path rq \<noteq> ''/api/hello''"
      "rq_method rq = ''GET'' \<longrightarrow> rq_path rq \<noteq> ''/health''"
  shows "\<exists>r t. client_active (pn_clients (an_pending an)) = Some r \<and> indexed_ok r
    \<and> reached (server_step mux fallback env up uc) (server_start a w) t \<and> answer_of mux fallback env t an
    \<and> (if \<exists>c. admits r (presented_token (rq_header rq)) c
       then \<exists>c p. admits r (presented_token (rq_header rq)) c \<and> pool_active (ap_pool (px_app t)) = Some p
         \<and> list_all (charged (c_name c)) (an_counted an) \<and> list_all well_formed_event (an_counted an)
         \<and> (if an_returned an then answers (an_events an)
            else list_all header_event (an_events an)
              \<and> (max_int64 < (\<Sum>m\<leftarrow>p_members p. m_weight m)
                 \<or> \<not> valid_answers (pool_handler env (px_app t)) (authenticated rq (c_name c)) (sent_body rq) (p_members p)))
       else an_returned an \<and> answers (an_events an) \<and> (\<exists>code \<in> {401, 403}. WStatus code \<in> set (an_events an))
         \<and> (\<exists>reason. an_counted an = [AuthFailures reason]))"
proof -
  obtain l cl where l: "pool_new_loader up pc pw pa pp = Inr l" "client_new_loader uc cc cw ca cp = Inr cl"
    and a: "ap_pool a = pool_watch l" "ap_clients a = client_watch cl"
    using start by (auto simp: app_new_def split: sum.splits)
  have "accounted mux fallback env up uc (server_start a w) an"
    using reached_accounted [OF run refl] new_loader_serving [OF l(1)] client_new_loader_serving [OF l(2)] a an(1)
    by simp
  then obtain r t p where r: "client_active (pn_clients (an_pending an)) = Some r" "indexed_ok r"
    and t: "reached (server_step mux fallback env up uc) (server_start a w) t"
    and p: "pool_active (ap_pool (px_app t)) = Some p" "active_ok p"
    and an_t: "answer_of mux fallback env t an"
    unfolding accounted_def pool_cfg.serving_def client_cfg.serving_def by blast
  let ?a = "(px_app t)\<lparr>ap_clients := pn_clients (an_pending an)\<rparr>"
  have r': "client_active (ap_clients ?a) = Some r" using r(1) by simp
  obtain st where st: "proxy_chain env ?a rq (request_state t) = (an_returned an, st)"
    "an_events an = rt_out st" "an_counted an = rt_metrics st"
    using an_t path(2-4) an(2) unfolding answer_of_def serve_pending_def app_handler_def mux_choice [OF path(1)]
    by auto
  have fresh: "rt_out (request_state t) = []" "rt_metrics (request_state t) = []" by (simp_all add: request_state_def)
  show ?thesis
  proof (cases "\<exists>c. admits r (presented_token (rq_header rq)) c")
    case False
    with chain_rejects [OF r' r(2) _ st(1)] fresh st(2,3)
    have "an_returned an \<and> answers (an_events an) \<and> (\<exists>code \<in> {401, 403}. WStatus code \<in> set (an_events an))
         \<and> (\<exists>reason. an_counted an = [AuthFailures reason])" by auto
    with False r t an_t show ?thesis by auto
  next
    case True
    then obtain c where c: "admits r (presented_token (rq_header rq)) c" by blast
    let ?h = "pool_handler env ?a" and ?rq = "authenticated rq (c_name c)"
    from chain_admits [OF r' r(2) c fresh st(1)] obtain s1 s2 where
      s: "serve_http ?h ?rq s1 = (an_returned an, s2)" "rt_out s1 = []" "rt_metrics s1 = []"
        "rt_out st = rt_out s2" "rt_metrics st = rt_metrics s2" by blast
    have h: "?h = pool_handler env (px_app t)" "h_active ?h = Some p"
      by (simp_all add: pool_handler_def new_handler_def p(1))
    have body: "sent_body ?rq = sent_body rq" by (simp add: sent_body_def authenticated_def)
    have "client_name ?rq = c_name c" using auth_passes [OF r(2) c] by blast
    with serve_http_charges [OF s(1)] s(3,5) st(3) have counted: "list_all (charged (c_name c)) (an_counted an)"
      by (auto simp: charges_def)
    moreover have "list_all well_formed_event (an_counted an)"
      using serve_http_accounts [OF s(1)] s(3,5) st(3) by (auto simp: accounts_def)
    moreover have "answers (an_events an)" if "an_returned an"
      using serve_http_answers [of ?h ?rq s1 s2] s that st(2) by auto
    moreover have "list_all header_event (an_events an)" if "\<not> an_returned an"
      using serve_http_panic_out [of ?h ?rq s1 s2] s that st(2) by auto
    moreover have "max_int64 < (\<Sum>m\<leftarrow>p_members p. m_weight m)
        \<or> \<not> valid_answers (pool_handler env (px_app t)) ?rq (sent_body rq) (p_members p)" if "\<not> an_returned an"
      using serve_http_panics [of ?h ?rq s1 s2] s(1) that h p(2) body
      by (auto simp: weights_ok_def active_ok_def)
    ultimately show ?thesis using True c p(1) r t an_t by (intro exI [of _ r] exI [of _ t]) auto
  qed
qed

section \<open>Examples\<close>

lemma serves_one:
  assumes "i < length (px_pending s)"
  shows "\<exists>an. px_answered (server_step mux fallback env up uc (Serves i) s) = px_answered s @ [an]
    \<and> an_pending an = px_pending s ! i"
  using assms by (cases "serve_pending mux fallback env (px_pending s ! i) s") simp

text \<open>The router's answer for a path it does not know.\<close>

definition not_found :: "'w conn \<Rightarrow> 'w http_handler" where
  "not_found conn rq st = (True, http_error conn ''404 page not found'' 404 st)"

text \<open>A start with the client whose token the example request presents.\<close>

definition demo_clients_unmarshal :: "bytes \<Rightarrow> client list option" where
  "demo_clients_unmarshal b = (if b = ''ok'' then Some [demo_client] else None)"

definition maria_app :: "unit app" where
  "maria_app = example_app\<lparr>ap_clients := client_watch demo_clients_loader\<rparr>"

lemma maria_app_new:
  "app_new default_config
     (pool_new_loader example_unmarshal (Some ''ok'') True (\<lambda>_. True) ''pool.yaml'')
     (client_new_loader demo_clients_unmarshal (Some ''ok'') True (\<lambda>_. True) ''clients.yaml'')
     (\<lambda>url. Inl ()) = Inr maria_app"
proof -
  have "registry_ok \<lparr>r_clients = [demo_client], r_by_hash = None\<rparr>"
    using demo_registry_indexed by (simp add: indexed_ok_def registry_ok_def demo_registry_def)
  then have "client_new_loader demo_clients_unmarshal (Some ''ok'') True (\<lambda>_. True) ''clients.yaml'' = Inr demo_clients_loader"
    by (simp add: client_new_loader_def client_reload_def load_registry_def demo_clients_unmarshal_def
        validate_registry_Inr [THEN iffD2] demo_clients_loader_def demo_registry_def)
  then show ?thesis
    by (simp add: app_new_def example_new_loader connect_store_def default_config_def new_logger_def
        maria_app_def example_app_def)
qed

theorem every_answer_accounted_witness:
  "\<exists>an. px_answered (fold (server_step demo_mux (not_found demo_conn) demo_env example_unmarshal demo_clients_unmarshal)
       [Arrives auth_request, Reloads (ClientInput (FsEvent {Write} (Some ''broken''))), Serves 0]
       (server_start maria_app ())) = [an]
     \<and> list_all (charged ''maria'') (an_counted an)
     \<and> (if an_returned an then answers (an_events an) else list_all header_event (an_events an))"
proof -
  let ?step = "server_step demo_mux (not_found demo_conn) demo_env example_unmarshal demo_clients_unmarshal"
  let ?before = "?step (Reloads (ClientInput (FsEvent {Write} (Some ''broken'')))) (?step (Arrives auth_request)
    (server_start maria_app ()))"
  let ?s = "fold ?step [Arrives auth_request, Reloads (ClientInput (FsEvent {Write} (Some ''broken''))), Serves 0]
    (server_start maria_app ())"
  have "?s = ?step (Serves 0) ?before" "px_answered ?before = []"
    "px_pending ?before = [\<lparr>pn_number = 0, pn_request = auth_request, pn_clients = ap_clients maria_app\<rparr>]"
    by (simp_all add: server_start_def)
  with serves_one [of 0 ?before demo_mux "not_found demo_conn" demo_env example_unmarshal demo_clients_unmarshal]
  obtain an where an: "px_answered ?s = [an]" "pn_request (an_pending an) = auth_request"
    "pn_clients (an_pending an) = ap_clients maria_app" by auto
  have path: "has_prefix ''/'' (rq_path auth_request)" "rq_path auth_request \<noteq> ''/api/hello''"
    "rq_method auth_request = ''GET'' \<longrightarrow> rq_path auth_request \<noteq> ''/health''"
    by (simp_all add: auth_request_def demo_request_def)
  have run: "reached ?step (server_start maria_app ()) ?s" by (rule reached_fold)
  have mem: "an \<in> set (px_answered ?s)" unfolding an(1) by simp
  obtain r and t :: "unit proxy" where r: "client_active (pn_clients (an_pending an)) = Some r"
    and all: "if \<exists>c. admits r (presented_token (rq_header auth_request)) c
       then \<exists>c p. admits r (presented_token (rq_header auth_request)) c \<and> pool_active (ap_pool (px_app t)) = Some p
         \<and> list_all (charged (c_name c)) (an_counted an) \<and> list_all well_formed_event (an_counted an)
         \<and> (if an_returned an then answers (an_events an)
            else list_all header_event (an_events an)
              \<and> (max_int64 < (\<Sum>m\<leftarrow>p_members p. m_weight m)
                 \<or> \<not> valid_answers (pool_handler demo_env (px_app t)) (authenticated auth_request (c_name c))
                       (sent_body auth_request) (p_members p)))
       else an_returned an \<and> answers (an_events an) \<and> (\<exists>code \<in> {401, 403}. WStatus code \<in> set (an_events an))
         \<and> (\<exists>reason. an_counted an = [AuthFailures reason])"
    using every_answer_accounted [OF maria_app_new run mem an(2) [symmetric] demo_mux_ok path]
    by (elim exE conjE) (rule that)
  have "client_active (pn_clients (an_pending an)) = Some demo_registry"
    using demo_app_registry by (simp add: an(3) maria_app_def demo_app_def)
  with r have "r = demo_registry" by simp
  then have ex: "\<exists>c. admits r (presented_token (rq_header auth_request)) c" using demo_admits by blast
  then obtain c where "admits demo_registry (presented_token (rq_header auth_request)) c" "list_all (charged (c_name c)) (an_counted an)"
      "if an_returned an then answers (an_events an) else list_all header_event (an_events an)"
    using all [unfolded if_P [OF ex]] \<open>r = demo_registry\<close> by (metis (mono_tags, lifting))
  moreover have "c_name c = ''maria''" if "admits demo_registry token c" for token c
    using that by (auto simp: admits_def demo_registry_def demo_client_def)
  ultimately have "list_all (charged ''maria'') (an_counted an)
      \<and> (if an_returned an then answers (an_events an) else list_all header_event (an_events an))" by simp
  with an(1) show ?thesis by blast
qed

text \<open>A file in which the only client is disabled.\<close>

definition disabled_registry :: "bytes \<Rightarrow> client list option" where
  "disabled_registry b = Some [demo_client\<lparr>c_enabled := Some False\<rparr>]"

lemma load_disabled_registry:
  "\<exists>r. load_registry disabled_registry (Some b) = Inr r \<and> (\<forall>token c. \<not> admits r token c)"
proof -
  let ?r = "\<lparr>r_clients = [demo_client\<lparr>c_enabled := Some False\<rparr>], r_by_hash = None\<rparr>"
  have "registry_ok ?r" using demo_registry_indexed
    by (simp add: indexed_ok_def registry_ok_def demo_registry_def client_ok_def digest_of_def)
  then obtain r where "validate_registry ?r = Inr r" "r_clients r = r_clients ?r"
    using validate_registry_Inr [of ?r] by auto
  then show ?thesis
    by (auto simp: load_registry_def disabled_registry_def admits_def client_enabled_def)
qed

theorem revoked_token_rejected_witness:
  "\<exists>an. px_answered (fold (server_step demo_mux (not_found demo_conn) demo_env (\<lambda>b. None) disabled_registry)
       [Arrives auth_request, Serves 0] (server_step demo_mux (not_found demo_conn) demo_env (\<lambda>b. None) disabled_registry
         (Reloads (ClientInput (FsEvent {Write} (Some ''x'')))) (server_start demo_app ()))) = [an]
     \<and> (\<exists>code \<in> {401, 403}. WStatus code \<in> set (an_events an))"
proof -
  let ?step = "server_step demo_mux (not_found demo_conn) demo_env (\<lambda>b. None) disabled_registry"
  let ?s1 = "?step (Reloads (ClientInput (FsEvent {Write} (Some ''x'')))) (server_start demo_app ())"
  let ?s2 = "fold ?step [Arrives auth_request, Serves 0] ?s1"
  obtain r where r: "load_registry disabled_registry (Some ''x'') = Inr r" "\<And>token c. \<not> admits r token c"
    using load_disabled_registry by blast
  have "?s2 = ?step (Serves 0) (?step (Arrives auth_request) ?s1)"
    "px_answered (?step (Arrives auth_request) ?s1) = []"
    "px_pending (?step (Arrives auth_request) ?s1)
       = [\<lparr>pn_number = 0, pn_request = auth_request, pn_clients = ap_clients (px_app ?s1)\<rparr>]"
    by (simp_all add: server_start_def)
  with serves_one [of 0 "?step (Arrives auth_request) ?s1" demo_mux "not_found demo_conn" demo_env "\<lambda>b. None" disabled_registry]
  obtain an where an: "px_answered ?s2 = [an]" "pn_request (an_pending an) = auth_request" by auto
  have "ws_running (ap_clients (px_app (server_start (demo_app :: unit app) ())))"
    by (simp add: server_start_def demo_app_def client_watch_def demo_clients_loader_def)
  note run = revoked_token_rejected [OF reached.here this _ r(1) refl _ refl]
  have mem: "an \<in> set (px_answered ?s2)" unfolding an(1) by simp
  have arrived: "px_arrived ?s1 \<le> pn_number (an_pending an)" by (simp add: server_start_def)
  have path: "has_prefix ''/'' (rq_path auth_request)" "rq_path auth_request \<noteq> ''/api/hello''" "rq_path auth_request \<noteq> ''/health''"
    by (simp_all add: auth_request_def demo_request_def)
  have "wants_reload {Write}" "\<forall>inp \<in> set [Arrives auth_request, Serves 0]. \<forall>i. inp \<noteq> Reloads (ClientInput i)"
    by (simp_all add: wants_reload_def)
  from run [OF this mem arrived an(2) [symmetric] r(2) demo_mux_ok path]
  have "\<exists>code \<in> {401, 403}. WStatus code \<in> set (an_events an)" by blast
  with an(1) show ?thesis by blast
qed

end
