(* ===== verification/Affinity.thy ===== *)
theory Affinity
  imports Handler_Correct
begin

text \<open>
  Session affinity through Redis, across two requests: what serving a session writes is what the next
  pick of that session reads.
\<close>

section \<open>A Redis that is up\<close>

text \<open>Redis answers every call, with the documented results; only the absence of a key is an error.\<close>

definition redis_up :: "'w redis_client \<Rightarrow> ('w \<Rightarrow> bytes \<rightharpoonup> bytes) \<Rightarrow> bool" where
  "redis_up cl live \<longleftrightarrow> redis_ok cl live
     \<and> (\<forall>c ks w. fst (rc_mget cl c ks w) \<noteq> None)
     \<and> (\<forall>c k v w. live w k = Some v \<longrightarrow> fst (rc_get cl c k w) = Some v)
     \<and> (\<forall>c k v ttl w. fst (rc_set cl c k v ttl w))"

text \<open>A caller's connection that has no access to Redis.\<close>

definition conn_apart :: "'w conn \<Rightarrow> ('w \<Rightarrow> bytes \<rightharpoonup> bytes) \<Rightarrow> bool" where
  "conn_apart conn live \<longleftrightarrow> (\<forall>b w. live (snd (conn b w)) = live w)"

lemma up_healthy:
  assumes up: "redis_up cl live" and h: "healthy_members (Some cl) members w = (ids, healthy, w1)"
  shows "healthy = filter (\<lambda>m. live w (cool_prefix @ m_id m) = None) (filter is_enabled members)
    \<and> ids = map m_id healthy \<and> live w1 = live w"
proof -
  let ?ids = "map m_id (filter is_enabled members)"
  have ok: "redis_ok cl live" using up by (simp add: redis_up_def)
  obtain vs w2 where g: "rc_mget cl RequestCtx (map (\<lambda>id. cool_prefix @ id) ?ids) w = (Some vs, w2)"
    using up unfolding redis_up_def by (metis option.exhaust prod.collapse)
  have "fst (filter_healthy (Some cl) RequestCtx ?ids w) = filter (\<lambda>id. live w (cool_prefix @ id) = None) ?ids"
    by (rule filter_healthy_live [OF ok g])
  moreover have "live (snd (filter_healthy (Some cl) RequestCtx ?ids w)) = live w"
    using g ok by (auto simp: filter_healthy_def redis_ok_def)
  ultimately have ids: "ids = filter (\<lambda>id. live w (cool_prefix @ id) = None) ?ids" and "live w1 = live w"
      and healthy: "healthy = filter (\<lambda>m. m_id m \<in> set ids) (filter is_enabled members)"
    using h by (auto simp: healthy_members_def Let_def split: prod.splits)
  moreover have "healthy = filter (\<lambda>m. live w (cool_prefix @ m_id m) = None) (filter is_enabled members)"
    unfolding healthy ids by (rule filter_cong) auto
  ultimately show ?thesis by (simp add: filter_map comp_def)
qed

section \<open>What serving writes\<close>

lemma write_body_live:
  "conn_apart conn live \<Longrightarrow> live (rt_world (snd (write_body conn b st))) = live (rt_world st)"
  unfolding conn_apart_def write_body_def by (simp add: split_beta)

lemma copy_stream_live:
  assumes conn: "conn_apart conn live"
  shows "live (rt_world (snd (copy_stream conn chunks ob st))) = live (rt_world st)"
proof (induction chunks arbitrary: ob st)
  case (Cons chunk chunks)
  obtain ok st1 where w: "write_body conn chunk st = (ok, st1)" by force
  with write_body_live [OF conn, of chunk st] have "live (rt_world st1) = live (rt_world st)" by simp
  with Cons w show ?case by (simp add: Let_def)
qed simp

lemma finish_pins:
  assumes mode: "h_sticky_mode h = ''redis''" "session \<noteq> []" "h_store h = Some cl"
    and up: "redis_up cl live" and conn: "conn_apart (h_conn h) live"
  shows "live (rt_world (snd (finish h name m session status hdrs body st)))
    = (live (rt_world st))(sticky_prefix @ session \<mapsto> m_id m)"
proof -
  obtain ok w where set: "rc_set cl RequestCtx (sticky_prefix @ session) (m_id m) hour (rt_world st) = (ok, w)"
    by force
  then have "ok" using up unfolding redis_up_def by (metis fst_conv)
  with set have pin: "live (rt_world (pin_session h session m st))
      = (live (rt_world st))(sticky_prefix @ session \<mapsto> m_id m)"
    using mode redis_set_ok [of cl live] up
    by (simp add: pin_session_def set_sticky_def redis_up_def hour_def second_def)
  let ?st1 = "emit [WStatus status] (write_headers hdrs (pin_session h session m st))"
  obtain ob st2 where cs: "copy_stream (h_conn h) (rd_chunks body)
      (new_usage_observer (hget hdrs ''Content-Type'')) ?st1 = (ob, st2)" by force
  have "live (rt_world st2) = live (rt_world ?st1)" using copy_stream_live [OF conn] cs by (metis snd_conv)
  with pin cs show ?thesis by (simp add: finish_def write_headers_def Let_def)
qed

lemma served_pins:
  assumes "h_sticky_mode h = ''redis''" "session \<noteq> []" "h_store h = Some cl"
    and "redis_up cl live" and "conn_apart (h_conn h) live"
    and "try_response h name session m rp st = (Inr res, st')"
  shows "live (rt_world st') = (live (rt_world st))(sticky_prefix @ session \<mapsto> m_id m)"
  using assms(6)
proof (cases rule: try_response_runs)
  case (final r body)
  then show ?thesis using finish_pins [OF assms(1-5)] by (metis snd_conv)
qed simp

section \<open>What the next request reads\<close>

text \<open>Property C29: affinity through Redis. After a member has served a request of a session, the next request
  of that session is given to the same member by every instance that shares the Redis, as long as
  the member is in the pool, enabled and not in cooldown, whatever the weights, the random source
  and the other members are.\<close>

theorem session_returns_to_member:
  assumes mode: "h_sticky_mode h = ''redis''" "session \<noteq> []" "h_store h = Some cl"
    and env: "redis_up cl live" "conn_apart (h_conn h) live"
    and served: "try_response h name session m rp st = (Inr Served, st')"
    and member: "m \<in> set members" "is_enabled m" "distinct (map m_id members)"
    and cool: "live (rt_world st) (cool_prefix @ m_id m) = None"
  shows "fst (router_pick (Some cl) intn members session True (rt_world st')) = Picked m"
proof -
  have pinned: "live (rt_world st') = (live (rt_world st))(sticky_prefix @ session \<mapsto> m_id m)"
    by (rule served_pins [OF mode env served])
  have "cool_prefix @ m_id m \<noteq> sticky_prefix @ session" by (simp add: cool_prefix_def sticky_prefix_def)
  with pinned cool have warm: "live (rt_world st') (cool_prefix @ m_id m) = None" by simp
  obtain ids healthy w1 where h: "healthy_members (Some cl) members (rt_world st') = (ids, healthy, w1)"
    by (metis prod_cases3)
  note up = up_healthy [OF env(1) h]
  from up have "healthy = filter (\<lambda>m. live (rt_world st') (cool_prefix @ m_id m) = None)
      (filter is_enabled members)" by blast
  then have m: "m \<in> set healthy" using member(1,2) warm by simp
  from up have "ids = map m_id healthy" by blast
  with m have ids: "ids \<noteq> []" by (cases healthy) simp_all
  have "fst (rc_get cl RequestCtx (sticky_prefix @ session) w1) = Some (m_id m)"
    using env(1) up pinned unfolding redis_up_def by simp
  then obtain w2 where g: "get_sticky (Some cl) RequestCtx session w1 = (Some (m_id m), w2)"
    using mode(2) by (cases "rc_get cl RequestCtx (sticky_prefix @ session) w1") (simp add: get_sticky_def)
  have "\<exists>x \<in> set healthy. m_id x = m_id m" using m by blast
  with router_pick_pinned [OF mode(2) h ids g, of intn]
  obtain m' where m': "fst (router_pick (Some cl) intn members session True (rt_world st')) = Picked m'"
    "m_id m' = m_id m" by (simp only: if_True) blast
  then have "m' \<in> set members"
    using router_pick_candidate by (metis prod.collapse)
  with m' member have "m' = m" by (metis distinct_map inj_onD)
  with m' show ?thesis by simp
qed

theorem session_returns_to_member_witness:
  "fst (router_pick (Some mem_redis) (\<lambda>n w. (0, w)) [demo_member ''b'', demo_member ''a''] ''s'' True
     (rt_world (snd (try_response ((demo_handler (Some mem_redis))\<lparr>h_sticky_mode := ''redis''\<rparr>) ''alice'' ''s''
        (demo_member ''a'') (demo_response\<lparr>rp_status := 200\<rparr>) (start_state mem_empty))))) = Picked (demo_member ''a'')"
proof -
  let ?h = "(demo_handler (Some mem_redis))\<lparr>h_sticky_mode := ''redis''\<rparr>"
  let ?r = "try_response ?h ''alice'' ''s'' (demo_member ''a'') (demo_response\<lparr>rp_status := 200\<rparr>) (start_state mem_empty)"
  have up: "redis_up mem_redis mem_live"
    by (simp add: redis_up_def mem_redis_ok) (simp add: mem_redis_def)
  have h: "h_sticky_mode ?h = ''redis''" "h_store ?h = Some mem_redis" "conn_apart (h_conn ?h) mem_live"
    by (simp_all add: demo_handler_def new_handler_def conn_apart_def demo_conn_def)
  have "fst (finish ?h ''alice'' (demo_member ''a'') ''s'' 200 hdrs body (start_state mem_empty)) = Served" for hdrs body
    by (simp add: finish_def valid_status_def Let_def split: prod.splits)
  moreover have "\<not> may_failover 200 (rp_header demo_response)" by code_simp
  ultimately have "fst ?r = Inr Served"
    by (simp add: try_response_def)
  then have "?r = (Inr Served, snd ?r)" by (simp only: prod_eq_iff fst_conv snd_conv)
  from session_returns_to_member [OF h(1) _ h(2) up h(3) this, of "[demo_member ''b'', demo_member ''a'']" "\<lambda>n w. (0, w)"]
  show ?thesis
    by (simp add: demo_member_def example_member_def is_enabled_def start_state_def mem_live_def mem_empty_def)
qed

end
