(* ===== verification/Cooldowns.thy ===== *)
theory Cooldowns
  imports Affinity Handler_Accounts
begin

text \<open>
  What a request does to the cooldowns that all instances share: exactly the members that failed it are
  cooled, and the next pick avoids them. A caller that hangs up is the worst case: it cools every
  member.
\<close>

section \<open>The environment\<close>

text \<open>Redis is up, nothing expires during the request, and neither the upstreams nor the random source
  nor the caller's connection write to it.\<close>

definition steady :: "'w handler \<Rightarrow> 'w redis_client \<Rightarrow> ('w \<Rightarrow> bytes \<rightharpoonup> bytes) \<Rightarrow> bool" where
  "steady h cl live \<longleftrightarrow> h_store h = Some cl \<and> redis_up cl live
     \<and> (\<forall>c k w. live (snd (rc_get cl c k w)) = live w)
     \<and> (\<forall>up w. live (snd (h_do h up w)) = live w) \<and> (\<forall>n w. live (snd (h_intn h n w)) = live w)
     \<and> conn_apart (h_conn h) live"

text \<open>No duration exceeds the 292 years a \<open>time.Duration\<close> can hold.\<close>

definition modest :: "'w handler \<Rightarrow> member list \<Rightarrow> bool" where
  "modest h members \<longleftrightarrow> (\<forall>m \<in> set members. m_cooldown_sec m \<le> 9223372036)
     \<and> (\<forall>up w rp w'. h_do h up w = (Some rp, w') \<longrightarrow>
          fst (snd (should_failover (rp_status rp) (read_all (rp_body rp)) (rp_header rp))) \<le> 9223372036)"

text \<open>Between two states the members \<open>is\<close> have been put into cooldown, and no other has been touched.\<close>

definition cools :: "('w \<Rightarrow> bytes \<rightharpoonup> bytes) \<Rightarrow> bytes list \<Rightarrow> 'w rstate \<Rightarrow> 'w rstate \<Rightarrow> bool" where
  "cools live is st st' \<longleftrightarrow> (\<forall>i. live (rt_world st') (cool_prefix @ i)
     = (if i \<in> set is then Some ''1'' else live (rt_world st) (cool_prefix @ i)))"

lemma cools_refl: "live (rt_world st') = live (rt_world st) \<Longrightarrow> cools live [] st st'"
  by (simp add: cools_def)

lemma cools_trans: "cools live is a b \<Longrightarrow> cools live js b c \<Longrightarrow> cools live (is @ js) a c"
  by (simp add: cools_def)

section \<open>What the steps do\<close>

lemma steady_up: "steady h cl live \<Longrightarrow> redis_up cl live \<and> redis_ok cl live \<and> h_store h = Some cl"
  by (simp add: steady_def redis_up_def)

lemma steady_get_sticky: "steady h cl live \<Longrightarrow> live (snd (get_sticky (h_store h) c session w)) = live w"
  by (auto simp: steady_def get_sticky_def)

lemma steady_choice: "steady h cl live \<Longrightarrow> live (snd (weighted_choice (h_intn h) session ms w)) = live w"
  by (simp add: steady_def weighted_choice_def random_pick_def Let_def split_beta)

lemma steady_pick:
  assumes "steady h cl live"
  shows "live (snd (router_pick (h_store h) (h_intn h) members session b w)) = live w"
proof -
  obtain ids healthy w1 where h: "healthy_members (h_store h) members w = (ids, healthy, w1)"
    by (metis prod_cases3)
  with up_healthy [of cl live members w ids healthy w1] steady_up [OF assms] have w1: "live w1 = live w" by simp
  show ?thesis
    using h w1 steady_get_sticky [OF assms, of RequestCtx session w1] steady_choice [OF assms]
    by (auto simp: router_pick_def split: prod.splits option.splits)
qed

lemma steady_note: "steady h cl live \<Longrightarrow> live (rt_world (note_sticky h session m b st)) = live (rt_world st)"
  using steady_get_sticky [of h cl live RequestCtx session "rt_world st"]
  by (auto simp: note_sticky_def split: prod.splits option.splits)

lemma steady_send: "steady h cl live \<Longrightarrow> live (snd (send h rq body m w)) = live w"
  by (auto simp: steady_def send_def split: option.splits)

lemma steady_cooldown:
  assumes "steady h cl live" and "cooldown_seconds m ttl \<le> 9223372036"
  shows "live (cooldown h m ttl w) = (live w)(cool_prefix @ m_id m \<mapsto> ''1'')"
proof -
  let ?n = "seconds (cooldown_seconds m ttl)"
  have "0 < ?n" using assms(2) seconds_pos cooldown_seconds_pos by blast
  obtain ok w' where c: "rc_set cl BackgroundCtx (cool_prefix @ m_id m) ''1'' ?n w = (ok, w')" by force
  then have "ok" using steady_up [OF assms(1)] unfolding redis_up_def by (metis fst_conv)
  with c \<open>0 < ?n\<close> show ?thesis
    using redis_set_ok [of cl live] steady_up [OF assms(1)] by (simp add: cooldown_def set_cooldown_def)
qed

lemma cooldown_cools:
  "steady h cl live \<Longrightarrow> cooldown_seconds m ttl \<le> 9223372036 \<Longrightarrow>
     rt_world st' = cooldown h m ttl (rt_world st) \<Longrightarrow> cools live [m_id m] st st'"
  by (simp add: cools_def steady_cooldown)

lemma steady_finish:
  assumes steady: "steady h cl live"
    and f: "finish h name m session status hdrs body st = (res, st')"
  shows "cools live [] st st'"
proof -
  note up = steady_up [OF steady]
  obtain ok w where set: "rc_set cl RequestCtx (sticky_prefix @ session) (m_id m) hour (rt_world st) = (ok, w)"
    by force
  then have "ok" using up unfolding redis_up_def by (metis fst_conv)
  with set have "live w = (live (rt_world st))(sticky_prefix @ session \<mapsto> m_id m)"
    using redis_set_ok [of cl live] up by (simp add: hour_def second_def)
  then have "live (rt_world (pin_session h session m st)) (cool_prefix @ i) = live (rt_world st) (cool_prefix @ i)" for i
    using up set by (simp add: pin_session_def set_sticky_def cool_prefix_def sticky_prefix_def)
  moreover obtain ob st2 where cs: "copy_stream (h_conn h) (rd_chunks body)
      (new_usage_observer (hget hdrs ''Content-Type''))
      (emit [WStatus status] (write_headers hdrs (pin_session h session m st))) = (ob, st2)" by force
  moreover have "live (rt_world st2) = live (rt_world (pin_session h session m st))"
    using copy_stream_live [of "h_conn h" live] steady cs unfolding steady_def
    by (metis rstate_simps(2) snd_conv write_headers_def)
  ultimately show ?thesis
    using f by (auto simp: finish_def cools_def write_headers_def Let_def split: if_splits)
qed

lemma steady_try:
  assumes steady: "steady h cl live" and modest: "modest h members" "m \<in> set members"
    and sent: "send h rq body m w = (Some rp, w')"
    and t: "try_response h name session m rp st = (res, st')"
  shows "cools live (case res of Inl bf \<Rightarrow> [m_id m] | Inr r \<Rightarrow> []) st st'"
  using t
proof (cases rule: try_response_runs)
  case (failed ttl reason)
  obtain up w1 where "h_do h up w1 = (Some rp, w')" using sent by (auto simp: send_def split: option.splits)
  with modest failed(2) have "ttl \<le> 9223372036" "m_cooldown_sec m \<le> 9223372036"
    unfolding modest_def by fastforce+
  then have "cooldown_seconds m (cooldown_ttl ttl (m_cooldown_sec m) (is_anthropic m)) \<le> 9223372036"
    by (auto simp: cooldown_seconds_def cooldown_ttl_def Let_def)
  from cooldown_cools [OF steady this, of "st'" st] failed show ?thesis by simp
next
  case (final r body)
  then show ?thesis using steady_finish [OF steady final(4)] by simp
qed

lemma steady_step:
  assumes steady: "steady h cl live" and modest: "modest h members"
    and step: "serve_step h rq name body members a tried l st = (r, st')"
  shows "cools live (case r of Again m bf \<Rightarrow> [m_id m] | Stop res t \<Rightarrow> []) st st'"
  using step
proof (cases rule: serve_step_runs)
  case no_candidate
  then show ?thesis by (simp add: cools_refl)
next
  case (no_pick b p)
  then show ?thesis using steady_pick [OF steady] by (auto intro!: cools_refl) (metis snd_conv)+
next
  case (sent b m w st1 o1 w1)
  let ?s = "st1\<lparr>rt_world := w1\<rparr>"
  have "live w = live (rt_world st)" using steady_pick [OF steady] sent(4) by (metis snd_conv)
  then have "live (rt_world st1) = live (rt_world st)" by (simp add: sent(5) steady_note [OF steady])
  then have pre: "cools live [] st ?s" using steady_send [OF steady] sent(6)
    by (intro cools_refl) (metis rstate.select_convs(1) rstate.surjective rstate.update_convs(1) snd_conv)
  note after = cools_trans [OF pre, simplified]
  from sent(7) show ?thesis
  proof (elim disjE exE conjE)
    assume "r = Again m bad_gateway" "st' = transport_failure h name m ?s"
    moreover have "cooldown_seconds m 0 \<le> 9223372036"
      using modest sent(1) by (simp add: modest_def cooldown_seconds_def Let_def)
    ultimately show ?thesis using after cooldown_cools [OF steady, of m 0 "st'" ?s]
      by (simp add: transport_failure_def Let_def)
  next
    fix rp bf
    assume "o1 = Some rp" "r = Again m bf" "try_response h name (session_id rq) m rp ?s = (Inl bf, st')"
    then show ?thesis using after steady_try [OF steady modest sent(1)] sent(6) by fastforce
  next
    fix rp res
    assume "o1 = Some rp" "r = Stop res (tried @ [m_id m])"
      "try_response h name (session_id rq) m rp ?s = (Inr res, st')"
    then show ?thesis using after steady_try [OF steady modest sent(1)] sent(6) by fastforce
  qed
qed

definition failed_members :: "served \<Rightarrow> bytes list \<Rightarrow> bytes list" where
  "failed_members res tried = (if res = Served then butlast tried else tried)"

lemma steady_loop:
  assumes steady: "steady h cl live" and modest: "modest h members"
    and loop: "serve_loop h rq name body members 0 [] None st = ((res, tried), st')"
  shows "res \<noteq> Panicked \<longrightarrow> cools live (failed_members res tried) st st'"
proof (rule serve_loop_rule [OF loop, where I = "\<lambda>a t l s. cools live t st s"])
  show "cools live (t @ [m_id m]) st s'"
    if "cools live t st s" "serve_step h rq name body members b t k s = (Again m bf, s')" for b t k s m bf s'
    using cools_trans [OF that(1)] steady_step [OF steady modest that(2)] by simp
  show "r \<noteq> Panicked \<longrightarrow> cools live (failed_members r t') st s'"
    if "cools live t st s" "serve_step h rq name body members b t k s = (Stop r t', s')" for b t k s r t' s'
  proof -
    have "cools live t st s'"
      using cools_trans [OF that(1), of "[]" s'] steady_step [OF steady modest that(2)] by simp
    moreover have "r \<noteq> Panicked \<Longrightarrow> failed_members r t' = t"
      using serve_step_totals [OF that(2)] by (auto simp: failed_members_def split: served.splits)
    ultimately show ?thesis by simp
  qed
qed (simp_all add: cools_refl failed_members_def)

section \<open>What the next pick sees\<close>

lemma up_pick:
  assumes "redis_up cl live" and "router_pick (Some cl) intn members session b w = (Picked m, w')"
  shows "live w (cool_prefix @ m_id m) = None"
proof -
  obtain ids healthy w1 where h: "healthy_members (Some cl) members w = (ids, healthy, w1)" "m \<in> set healthy"
    using router_pick_source [OF assms(2)] by metis
  with up_healthy [OF assms(1) h(1)] show ?thesis by simp
qed

lemma up_pick_error:
  assumes "redis_up cl live" and "router_pick (Some cl) intn members session b w = (PickErr e, w')"
    and "m \<in> set members" "is_enabled m"
  shows "live w (cool_prefix @ m_id m) \<noteq> None"
proof
  assume warm: "live w (cool_prefix @ m_id m) = None"
  obtain ids healthy w1 where h: "healthy_members (Some cl) members w = (ids, healthy, w1)"
    by (metis prod_cases3)
  from up_healthy [OF assms(1) h] assms(3,4) warm have "m \<in> set healthy" "ids = map m_id healthy" by auto
  then have "ids \<noteq> []" by auto
  moreover have "members \<noteq> []" "filter is_enabled members \<noteq> []" using assms(3,4) by (auto simp: filter_empty_conv)
  ultimately show False
    using assms(2) h by (auto simp: router_pick_def weighted_choice_def random_pick_def Let_def
        split: if_splits prod.splits option.splits)
qed

text \<open>Property C9: the shared cooldown state after a request is exact. With a Redis that is up, the members
  that failed the request are in cooldown, no other member's cooldown has changed, and no instance
  picks one of the failed members next.\<close>

theorem request_cools_exactly_failed:
  assumes steady: "steady h cl live" and modest: "modest h members"
    and loop: "serve_loop h rq name body members 0 [] None st = ((res, tried), st')" "res \<noteq> Panicked"
    and failed: "failed = (if res = Served then butlast tried else tried)"
  shows "(\<forall>i. live (rt_world st') (cool_prefix @ i)
      = (if i \<in> set failed then Some ''1'' else live (rt_world st) (cool_prefix @ i)))
    \<and> (\<forall>intn pool session b m w'. router_pick (Some cl) intn pool session b (rt_world st') = (Picked m, w')
        \<longrightarrow> m_id m \<notin> set failed)"
proof -
  have "cools live failed st st'"
    using steady_loop [OF steady modest loop(1)] loop(2) by (simp add: failed failed_members_def)
  moreover have "live (rt_world st') (cool_prefix @ m_id m) = None"
    if "router_pick (Some cl) intn pool session b (rt_world st') = (Picked m, w')" for intn pool session b m w'
    using up_pick [OF _ that] steady_up [OF steady] by blast
  ultimately show ?thesis unfolding cools_def by (metis option.distinct(1))
qed

section \<open>A caller that hangs up\<close>

text \<open>What the handler meets once the context of the caller's request is cancelled: \<open>client.Do\<close> and every
  Redis call made with that context return its error and do nothing; calls with
  \<open>context.Background()\<close> go through.\<close>

definition cancelled_redis :: "'w redis_client \<Rightarrow> 'w redis_client" where
  "cancelled_redis cl = cl
     \<lparr>rc_exists := \<lambda>c k w. if c = RequestCtx then (None, w) else rc_exists cl c k w,
      rc_mget := \<lambda>c ks w. if c = RequestCtx then (None, w) else rc_mget cl c ks w,
      rc_get := \<lambda>c k w. if c = RequestCtx then (None, w) else rc_get cl c k w,
      rc_set := \<lambda>c k v ttl w. if c = RequestCtx then (False, w) else rc_set cl c k v ttl w\<rparr>"

definition cancelled :: "'w handler \<Rightarrow> 'w handler" where
  "cancelled h = h\<lparr>h_do := \<lambda>up w. (None, w), h_store := map_option cancelled_redis (h_store h)\<rparr>"

lemma cancelled_send: "send (cancelled h) rq body m w = (None, w)"
  by (simp add: send_def cancelled_def split: option.splits)

lemma cancelled_cooldown: "cooldown (cancelled h) m t w = cooldown h m t w"
  by (cases "h_store h") (simp_all add: cooldown_def cancelled_def set_cooldown_def cancelled_redis_def)

lemma cancelled_filter: "filter_healthy (h_store (cancelled h)) RequestCtx ids w = (ids, w)"
  by (cases "h_store h") (simp_all add: cancelled_def filter_healthy_def cancelled_redis_def)

lemma cancelled_sticky: "get_sticky (h_store (cancelled h)) RequestCtx session w = (None, w)"
  by (cases "h_store h") (simp_all add: cancelled_def get_sticky_def cancelled_redis_def)

lemma cancelled_note: "note_sticky (cancelled h) session m b st = st"
  by (simp add: note_sticky_def cancelled_sticky)

lemma cancelled_pick:
  assumes "steady h cl live"
  shows "live (snd (router_pick (h_store (cancelled h)) (h_intn (cancelled h)) members session b w)) = live w"
proof -
  have "h_intn (cancelled h) = h_intn h" by (simp add: cancelled_def)
  then show ?thesis
    using steady_choice [OF assms]
    by (auto simp: router_pick_def healthy_members_def cancelled_filter cancelled_sticky Let_def)
qed

text \<open>Where the loop is after the members \<open>t\<close> have failed.\<close>

definition hung_up ::
  "member list \<Rightarrow> ('w \<Rightarrow> bytes \<rightharpoonup> bytes) \<Rightarrow> 'w rstate \<Rightarrow> bytes list \<Rightarrow> buffered option \<Rightarrow> 'w rstate \<Rightarrow> bool" where
  "hung_up members live st t l s \<longleftrightarrow> cools live t st s \<and> distinct t
     \<and> set t \<subseteq> m_id ` set (filter is_enabled members) \<and> (l = None \<or> l = Some bad_gateway) \<and> rt_out s = rt_out st"

lemma hung_up_quiet:
  "hung_up members live st t l s \<Longrightarrow> live (rt_world s') = live (rt_world s) \<Longrightarrow> rt_out s' = rt_out s \<Longrightarrow>
     hung_up members live st t l s'"
  by (simp add: hung_up_def cools_def)

lemma hung_up_failed:
  assumes "steady h cl live" and "m_cooldown_sec m \<le> 9223372036"
    and "hung_up members live st t l s" "m \<in> set members" "is_enabled m" "m_id m \<notin> set t"
  shows "hung_up members live st (t @ [m_id m]) (Some bad_gateway) (transport_failure (cancelled h) name m s)"
proof -
  have "cooldown_seconds m 0 \<le> 9223372036" using assms(2) by (simp add: cooldown_seconds_def Let_def)
  then have "cools live [m_id m] s (transport_failure (cancelled h) name m s)"
    by (intro cooldown_cools [OF assms(1)]) (simp_all add: transport_failure_def Let_def cancelled_cooldown)
  with assms(3-6) cools_trans show ?thesis by (fastforce simp: hung_up_def)
qed

lemma hung_up_step:
  assumes steady: "steady h cl live" and secs: "\<forall>m \<in> set members. m_cooldown_sec m \<le> 9223372036"
    and pool: "weights_ok members" and I: "hung_up members live st t l s"
    and step: "serve_step (cancelled h) rq name body members a t l s = (r, s')"
  shows "case r of Again m bf \<Rightarrow> hung_up members live st (t @ [m_id m]) (Some bf) s'
    | Stop res t' \<Rightarrow> res = Exhausted l \<and> t' = t \<and> hung_up members live st t l s'
        \<and> set t = m_id ` set (filter is_enabled members)"
  using step
proof (cases rule: serve_step_runs)
  case no_candidate
  then have "set t = m_id ` set (filter is_enabled members)"
    using I by (auto simp: hung_up_def filter_not_tried_def filter_empty_conv)
  with no_candidate I show ?thesis by simp
next
  case (no_pick b p)
  let ?ms = "filter_not_tried members t"
  have ok: "weights_ok ?ms" unfolding filter_not_tried_def by (rule weights_ok_filter [OF pool])
  have none: "filter is_enabled ?ms = []"
  proof (rule ccontr)
    assume "filter is_enabled ?ms \<noteq> []"
    then have "fst (filter_healthy (h_store (cancelled h)) RequestCtx (map m_id (filter is_enabled ?ms)) (rt_world s)) \<noteq> []"
      by (simp add: cancelled_filter)
    from router_pick_picks [OF ok no_pick(1) this, of "h_intn (cancelled h)" "session_id rq" b]
    obtain m where "p = Picked m" unfolding no_pick(2) by auto
    with no_pick(3) show False by simp
  qed
  then have all: "set t = m_id ` set (filter is_enabled members)"
    using I by (auto simp: hung_up_def filter_not_tried_def filter_empty_conv)
  from none no_pick(1,2) have "p = PickErr ErrNoHealthy" by (simp add: router_pick_def)
  with no_pick(3) have "r = Stop (Exhausted l) t" by auto
  moreover have "live (rt_world s') = live (rt_world s)"
    using cancelled_pick [OF steady, of ?ms "session_id rq" b "rt_world s"] no_pick(2) by simp
  moreover have "rt_out s' = rt_out s"
    using no_pick(4) by (metis rstate.select_convs(2) rstate.surjective rstate.update_convs(1))
  ultimately show ?thesis using all hung_up_quiet [OF I, of s'] by simp
next
  case (sent b m w st1 o1 w1)
  have st1: "st1 = s\<lparr>rt_world := w\<rparr>" by (simp add: sent(5) cancelled_note)
  have o1: "o1 = None" "w1 = w" using sent(6) by (simp_all add: cancelled_send st1)
  have "live w = live (rt_world s)"
    using cancelled_pick [OF steady, of "filter_not_tried members t" "session_id rq" b "rt_world s"] sent(4) by simp
  then have "hung_up members live st t l (st1\<lparr>rt_world := w1\<rparr>)"
    by (intro hung_up_quiet [OF I]) (simp_all add: st1 o1)
  from hung_up_failed [OF steady _ this sent(1-3)] secs sent(1,7) o1(1) show ?thesis by auto
qed

lemma hung_up_loop:
  assumes steady: "steady h cl live" and secs: "\<forall>m \<in> set members. m_cooldown_sec m \<le> 9223372036"
    and pool: "weights_ok members"
    and loop: "serve_loop (cancelled h) rq name body members 0 [] None st = ((res, tried), st')"
  shows "\<exists>l. res = Exhausted l \<and> hung_up members live st tried l st' \<and> set tried = m_id ` set (filter is_enabled members)"
proof (rule serve_loop_rule [OF loop, where I = "\<lambda>a t l s. hung_up members live st t l s \<and> length t = a"])
  show "hung_up members live st (t @ [m_id m]) (Some bf) s' \<and> length (t @ [m_id m]) = Suc a"
    if "hung_up members live st t l s \<and> length t = a"
      "serve_step (cancelled h) rq name body members a t l s = (Again m bf, s')" for a t l s m bf s'
    using that hung_up_step [OF steady secs pool _ that(2)] by simp
  show "\<exists>k. r = Exhausted k \<and> hung_up members live st t' k s' \<and> set t' = m_id ` set (filter is_enabled members)"
    if "hung_up members live st t l s \<and> length t = a"
      "serve_step (cancelled h) rq name body members a t l s = (Stop r t', s')" for a t l s r t' s'
    using hung_up_step [OF steady secs pool conjunct1 [OF that(1)] that(2)] by auto
  show "\<exists>k. Exhausted l = Exhausted k \<and> hung_up members live st t k s \<and> set t = m_id ` set (filter is_enabled members)"
    if "hung_up members live st t l s \<and> length t = a" "length members \<le> a" for a t l s
    using that tried_full [of t members] by (auto simp: hung_up_def)
qed (simp_all add: hung_up_def cools_refl)

lemma http_error_live:
  assumes "conn_apart conn live"
  shows "live (rt_world (http_error conn msg code st)) = live (rt_world st)
    \<and> (\<exists>es. rt_out (http_error conn msg code st) = rt_out st @ es \<and> WStatus code \<in> set es)"
proof -
  let ?st = "emit [HDel ''Content-Length'', HSet ''Content-Type'' ''text/plain; charset=utf-8'',
    HSet ''X-Content-Type-Options'' ''nosniff'', WStatus code] st"
  obtain ok st1 where w: "write_body conn (msg @ nl) ?st = (ok, st1)" by force
  then have "http_error conn msg code st = st1" by (simp add: http_error_def)
  then show ?thesis
    using write_body_live [OF assms, of "msg @ nl" ?st] write_body_out [OF w] w by auto
qed

lemma all_cooled_pick:
  assumes "redis_up cl live" and "members \<noteq> []"
    and "\<And>m. m \<in> set members \<Longrightarrow> is_enabled m \<Longrightarrow> live w (cool_prefix @ m_id m) \<noteq> None"
  shows "fst (router_pick (Some cl) intn members session b w) = PickErr ErrNoHealthy"
proof -
  obtain ids healthy w1 where h: "healthy_members (Some cl) members w = (ids, healthy, w1)"
    by (metis prod_cases3)
  from up_healthy [OF assms(1) h] assms(3) have "healthy = []" by (auto simp: filter_empty_conv)
  with up_healthy [OF assms(1) h] have "ids = []" by simp
  with h assms(2) show ?thesis by (simp add: router_pick_def)
qed

text \<open>Property C22: one caller that hangs up takes the whole pool down. Once its context is cancelled, its
  health checks fail open, no upstream request is sent, and yet every enabled member, cooled before
  or not, is put into cooldown with the background context; the 502 written is lost on the caller,
  but every other request, on every instance that shares the Redis, finds no healthy member until
  the cooldowns expire.\<close>

theorem hang_up_cools_pool:
  assumes steady: "steady h cl live" and secs: "\<forall>m \<in> set (p_members p). m_cooldown_sec m \<le> 9223372036"
    and pool: "h_active h = Some p" "active_ok p" "(\<Sum>m\<leftarrow>p_members p. m_weight m) \<le> max_int64"
  shows "\<exists>st' es. serve_http (cancelled h) rq st = (True, st') \<and> rt_out st' = rt_out st @ es \<and> answers es
    \<and> WStatus 502 \<in> set es
    \<and> (\<forall>m \<in> set (p_members p). is_enabled m \<longrightarrow> live (rt_world st') (cool_prefix @ m_id m) = Some ''1'')
    \<and> (\<forall>intn session b. fst (router_pick (Some cl) intn (p_members p) session b (rt_world st')) = PickErr ErrNoHealthy)"
proof -
  let ?h = "cancelled h"
  have w: "weights_ok (p_members p)" using pool(2,3) by (simp add: weights_ok_def active_ok_def)
  have ne: "p_members p \<noteq> []" using pool(2) by (auto simp: active_ok_def pool_ok_def)
  obtain res tried st1 where l: "serve_loop ?h rq (client_name rq) (sent_body rq) (p_members p) 0 [] None st
      = ((res, tried), st1)" by (metis prod.exhaust)
  from hung_up_loop [OF steady secs w l] obtain k where k: "res = Exhausted k"
    "hung_up (p_members p) live st tried k st1" "set tried = m_id ` set (filter is_enabled (p_members p))" by blast
  let ?st' = "http_error (h_conn h) ''all upstreams failed'' 502 st1"
  have same: "h_active ?h = Some p" "h_conn ?h = h_conn h" using pool(1) by (simp_all add: cancelled_def)
  have "answer_failure ?h k st1 = (True, ?st')"
    using k(2) by (auto simp: answer_failure_def hung_up_def bad_gateway_def same)
  with l k(1) same(1) ne have s: "serve_http ?h rq st = (True, ?st')" by (simp add: serve_http_def sent_body_def)
  note e = http_error_live [of "h_conn h" live "''all upstreams failed''" 502 st1]
  have e: "live (rt_world ?st') = live (rt_world st1)" "\<exists>es. rt_out ?st' = rt_out st1 @ es \<and> WStatus 502 \<in> set es"
    using e steady by (simp_all add: steady_def)
  have cooled: "live (rt_world ?st') (cool_prefix @ m_id m) = Some ''1''"
    if "m \<in> set (p_members p)" "is_enabled m" for m
    using k(2,3) that by (auto simp: hung_up_def cools_def e(1))
  have "fst (router_pick (Some cl) intn (p_members p) session b (rt_world ?st')) = PickErr ErrNoHealthy" for intn session b
    using steady_up [OF steady] ne cooled by (intro all_cooled_pick) auto
  with s cooled e(2) k(2) serve_http_answers [OF s] show ?thesis by (fastforce simp: hung_up_def)
qed

section \<open>Examples\<close>

lemma demo_steady: "steady (demo_handler (Some mem_redis)) mem_redis mem_live"
  by (simp add: steady_def redis_up_def mem_redis_ok)
    (simp add: demo_handler_def new_handler_def mem_redis_def demo_do_def conn_apart_def demo_conn_def)

lemma demo_modest: "modest (demo_handler (Some mem_redis)) [demo_member ''a'', demo_member ''b'']"
proof -
  have "fst (snd (should_failover 429 ''rate_limit'' [])) \<le> 9223372036"
    "fst (snd (should_failover 200 ''hello'' [(''Content-Type'', [''text/event-stream''])])) \<le> 9223372036"
    by code_simp+
  then show ?thesis
    by (auto simp: modest_def demo_handler_def new_handler_def demo_do_def demo_member_def example_member_def
        read_all_def split: if_splits)
qed

theorem request_cools_exactly_failed_witness:
  "mem_live (rt_world (snd (serve_loop (demo_handler (Some mem_redis)) demo_request ''alice'' []
       [demo_member ''a'', demo_member ''b''] 0 [] None (start_state mem_empty)))) (cool_prefix @ ''a'') = Some ''1''
   \<and> mem_live (rt_world (snd (serve_loop (demo_handler (Some mem_redis)) demo_request ''alice'' []
       [demo_member ''a'', demo_member ''b''] 0 [] None (start_state mem_empty)))) (cool_prefix @ ''b'') = None"
proof -
  let ?r = "serve_loop (demo_handler (Some mem_redis)) demo_request ''alice'' []
       [demo_member ''a'', demo_member ''b''] 0 [] None (start_state mem_empty)"
  have t: "fst ?r = (Served, [''a'', ''b''])" by code_simp
  have "?r = ((Served, [''a'', ''b'']), snd ?r)" by (simp only: prod_eq_iff fst_conv snd_conv t)
  from request_cools_exactly_failed [OF demo_steady demo_modest this _ refl, THEN conjunct1]
  show ?thesis by (simp add: start_state_def mem_live_def mem_empty_def)
qed

text \<open>Upstreams that would answer, had the caller not hung up.\<close>

definition serving_handler :: "mem_world handler" where
  "serving_handler = (demo_handler (Some mem_redis))\<lparr>h_active := Some demo_pool\<rparr>"

theorem hang_up_cools_pool_witness:
  "fst (serve_http (cancelled serving_handler) demo_request (start_state mem_empty))
   \<and> mem_live (rt_world (snd (serve_http (cancelled serving_handler) demo_request (start_state mem_empty))))
       (cool_prefix @ ''b'') = Some ''1''"
proof -
  have steady: "steady serving_handler mem_redis mem_live"
    using demo_steady by (simp add: steady_def serving_handler_def)
  have secs: "\<forall>m \<in> set (p_members demo_pool). m_cooldown_sec m \<le> 9223372036" by code_simp
  have "h_active serving_handler = Some demo_pool" by (simp add: serving_handler_def)
  from hang_up_cools_pool [OF steady secs this demo_pool_ok demo_pool_facts(1), of demo_request "start_state mem_empty"]
  obtain st' where s: "serve_http (cancelled serving_handler) demo_request (start_state mem_empty) = (True, st')"
    and c: "\<forall>m \<in> set (p_members demo_pool). is_enabled m \<longrightarrow> mem_live (rt_world st') (cool_prefix @ m_id m) = Some ''1''"
    by blast
  have "m_id demo_fallback = ''b''" by code_simp
  with c demo_pool_facts(2,3) have "mem_live (rt_world st') (cool_prefix @ ''b'') = Some ''1''" by metis
  with s show ?thesis by simp
qed

end
