(* ===== verification/Spec2Isabelle.thy ===== *)
theory Spec2Isabelle
  imports Proem_Main Server Cooldowns
begin

text \<open>
  Proem is a reverse proxy in front of several upstream accounts for one API. A request comes in
  with a token the proxy issued itself; the proxy authenticates it, picks a member of its pool, puts
  the member's credential in place of the caller's, sends the request on, and relays the answer. When
  the answer says that the member is rate limited, the member goes into a cooldown, shared through
  Redis, and the next member is tried. The pool and the registry of clients are files that are watched
  and reloaded while the program runs.

  This development models the whole Go program under \<open>src/cmd\<close> and \<open>src/internal\<close>.

  \<^bold>\<open>The theories\<close>, in the order they build on each other:

  \<^item> \<open>Proem_Prelude\<close>: names of types, 64-bit integers with wrap-around, shared lemmas.
  \<^item> \<open>Go_Strings\<close>, \<open>Go_Header\<close>, \<open>Go_Net\<close>, \<open>Go_Url\<close>, \<open>Go_Digest\<close>, \<open>Go_Json\<close>, \<open>Http\<close>: what the program uses of
    Go's standard library. Strings are byte lists; \<open>http.Header\<close> is an association list by canonical
    key behind the locale \<open>header_ops\<close>; SHA-256 and CRC-32 work on 32-bit words; \<open>Http\<close> has requests,
    responses, body readers and the events of a \<open>ResponseWriter\<close>, with \<open>deliver\<close>, what a caller gets of
    them.
  \<^item> \<open>Failover\<close> (\<open>internal/failover/detector.go\<close>): which responses fail over, and for how long.
  \<^item> \<open>Pool\<close>, \<open>Pool_Loader\<close> (\<open>internal/pool\<close>), \<open>Client\<close>, \<open>Client_Loader\<close> (\<open>internal/client\<close>): the two files,
    their validation, loading and reloading. Both loaders interpret the locale \<open>watched_config\<close> of
    \<open>Watcher\<close>: what is published is good, whatever happens to the file.
  \<^item> \<open>Store\<close> (\<open>internal/store/redis.go\<close>): cooldowns and session pins. The Redis client is a record of
    functions on an arbitrary world.
  \<^item> \<open>Router\<close> (\<open>internal/router/router.go\<close>): the choice of a member. \<open>Metrics\<close> (\<open>internal/metrics\<close>): the
    nine collectors with their names and labels, and the calls on them as a log.
  \<^item> \<open>Usage\<close> (\<open>internal/proxy/usage.go\<close>): token counts read along a streamed or buffered body.
  \<^item> \<open>Forwarder\<close> (\<open>internal/proxy/forwarder.go\<close>): credentials and the rewriting of model names.
  \<^item> \<open>Handler\<close> (\<open>internal/proxy/handler.go\<close>): \<open>ServeHTTP\<close> as \<open>serve_http\<close>, its loop as \<open>serve_loop\<close> over
    \<open>serve_step\<close>. Every case analysis of an iteration is \<open>serve_step_runs\<close>, of a response in hand
    \<open>try_response_runs\<close>, and every property of the loop goes through \<open>serve_loop_rule\<close>.
  \<^item> \<open>Handler_Correct\<close> (one answer, transparency, who is tried), \<open>Handler_Serves\<close> (served whenever one member
    can answer), \<open>Handler_Accounts\<close> (metrics and token counts), \<open>Affinity\<close> and \<open>Cooldowns\<close> (what a request
    leaves in Redis for the next ones): what the handler guarantees.
  \<^item> \<open>Auth\<close> (\<open>internal/proxy/auth.go\<close>), \<open>Client_Ip\<close> (\<open>internal/clientip\<close>), \<open>Middleware\<close>
    (\<open>internal/proxy/middleware.go\<close>): the layers around the handler, under the locales
    \<open>answering_handler\<close> and \<open>middleware\<close>.
  \<^item> \<open>Config\<close> (\<open>internal/config\<close>, the dispatch of \<open>cmd/proem/main.go\<close>): the command line.
  \<^item> \<open>App\<close> (\<open>internal/app/app.go\<close>): start, wiring and \<open>Close\<close>; \<open>Server\<close>: the running proxy as a transition
    system of requests in flight, reloads and outside events; \<open>App_Run\<close>: \<open>Run\<close> as a transition system of
    two goroutines and the main one; \<open>Proem_Main\<close>: \<open>main\<close> from the command line to the exit status.

  \<^bold>\<open>State.\<close> A request runs on a \<open>rstate\<close>: the outside world \<open>'w\<close> (Redis, the upstreams, the random
  source and the caller's connection act on it, so anything may happen between two calls), the events
  written to the caller, the metrics, the log and the request scope. A handler maps a request and a
  state to whether it returned, as opposed to panicked, and the next state. The loaders keep the
  pointer that is swapped atomically; \<open>reached\<close> runs them, and the program with both, through any
  sequence of inputs. In \<open>Server\<close> a request is authenticated
  against the registry of its arrival and served with the pool of its service, as the two atomic
  pointers are read; the service itself is one step, and what runs concurrently with it acts through
  the world.

  \<^bold>\<open>What is shown.\<close> Per component: validation accepts exactly the well-formed files; the active pool and
  registry are always valid; reloads are atomic; lookups find exactly the client whose digest matches;
  issued tokens round-trip; the weighted choice is exact, a session's choice is its hash's, and a
  pick is decided exactly; the health filter is the one that
  Redis' keys describe and fails open; the failover decision and its cheap first phase agree; the
  observer is independent of chunking, monotone and bounded; the forwarder's buffer arithmetic and its
  rewriting; the resolver believes only what trusted proxies add. Of a request: exactly one answer, a
  transparent relay, at most one upstream request per member, every member tried before giving up, the
  member's credential in place of the caller's and every other header known, no upstream request without a registered token, a truthful
  access log, metrics that name exactly the members that failed and the one that answered, tokens
  counted from the body the caller received, and cooldowns for exactly the members that failed. Across
  components: a registered client is served whenever one member can answer and nobody cools it
  (\<open>registered_client_served\<close> below); at the running proxy every request that is done was rejected, or
  charged to the client of its token and answered once, or panicked, for one of two reasons, before
  any of an answer was written; a revoked token is refused from the reload on, and a started program stays ready until
  it is closed, ends when asked to, and never blocks a goroutine.

  \<^bold>\<open>Loops and bounds.\<close> No definition takes fuel: every loop is a structural recursion or a \<open>function\<close> with
  a proved measure (the failover loop by the attempts left, the observer by the bytes left, the flag
  parser by the arguments left). \<open>itoa\<close> keeps its 20-byte and 4-byte buffers and would return \<open>None\<close> on
  an index out of range, which is shown not to happen. Sums of weights and durations wrap at 64 bits;
  theorems that need them not to wrap say so.

  \<^bold>\<open>Parameters.\<close> YAML decoding, \<open>fsnotify\<close>, reading files and the environment, the Redis client
  (\<open>redis_ok\<close> for its documented results, \<open>redis_up\<close> when it answers every call, \<open>spares\<close> when it may fail
  but does not report one member as cooled, \<open>steady\<close> when nothing expires meanwhile), \<open>http.Client.Do\<close>
  (\<open>upstream_ok\<close>, \<open>valid_answers\<close>, and \<open>observes\<close>, by which the world shows the requests sent), \<open>rand.Intn\<close>, \<open>crypto/rand\<close>, \<open>time.ParseDuration\<close>, the chi
  router (\<open>mux_ok\<close>) and the caller's connection (\<open>accepts\<close> where a caller that reads everything is
  meant). Maps that the code ranges over are association lists in an arbitrary order.

  \<^bold>\<open>Not modelled\<close>: the values of clocks (latencies, log durations, time stamps), the text of log lines
  other than the access log's fields, usage texts; the registry and the exposition behind the metrics
  and the rounding of their floating-point values; signals and
  sockets below the events of \<open>App_Run\<close>, and how long a shutdown waits for requests in flight; data
  races inside the Go runtime (what the code shares between goroutines is an atomic pointer or a
  channel); the moment at which a caller hangs up: \<open>cancelled\<close> in \<open>Cooldowns\<close> is a request whose context is
  cancelled from the start, and a later cancellation shows as errors of the upstream and Redis
  parameters.
\<close>

section \<open>A registered client is served\<close>

lemma access_log_relays:
  assumes "\<And>s. rt_world s = rt_world st \<Longrightarrow> \<exists>s' es. handler rq s = (True, s') \<and> rt_out s' = rt_out s @ es \<and> P es"
  shows "\<exists>st' es. access_log handler rq st = (True, st') \<and> rt_out st' = rt_out st @ es \<and> P es"
proof (cases "rq_path rq = ''/health''")
  case True
  then show ?thesis using assms by (simp add: access_log_def)
next
  case False
  obtain s' es where "handler rq (st\<lparr>rt_out := []\<rparr>) = (True, s')" "rt_out s' = es" "P es"
    using assms [of "st\<lparr>rt_out := []\<rparr>"] by auto
  with False show ?thesis by (auto simp: access_log_def Let_def log_line_def)
qed

lemma sent_body_authenticated: "sent_body (authenticated rq name) = sent_body rq"
  by (simp add: sent_body_def authenticated_def)

text \<open>Property C1: the chain as a whole. A request that presents the token of an enabled client gets,
  through every layer, the complete and unchanged answer of an enabled pool member, whenever one of
  them can answer it and is not put into cooldown meanwhile; Redis may be absent, fail at any call,
  or hold anything else.\<close>

theorem registered_client_served:
  assumes client: "client_active (ap_clients a) = Some r" "indexed_ok r"
      "admits r (presented_token (rq_header rq)) c"
    and pool: "pool_active (ap_pool a) = Some p" "active_ok p"
      "(\<Sum>m\<leftarrow>p_members p. m_weight m) \<le> max_int64"
    and env: "accepts (en_conn env)" "upstream_ok (pool_handler env a)"
    and one: "g \<in> set (p_members p)" "is_enabled g"
      "can_answer (pool_handler env a) (authenticated rq (c_name c)) (sent_body rq) I g"
    and spared: "spares (pool_handler env a) (cool_prefix @ m_id g) I" "I (rt_world st)"
  shows "\<exists>st' es m rp w w'. proxy_chain env a rq st = (True, st') \<and> rt_out st' = rt_out st @ es
    \<and> relayed rp es \<and> final_response rp \<and> m \<in> set (p_members p) \<and> is_enabled m
    \<and> send (pool_handler env a) (authenticated rq (c_name c)) (sent_body rq) m w = (Some rp, w')"
proof -
  let ?h = "pool_handler env a" and ?rq = "authenticated rq (c_name c)"
  let ?P = "\<lambda>es. \<exists>m rp w w'. relayed rp es \<and> final_response rp \<and> m \<in> set (p_members p) \<and> is_enabled m
    \<and> send ?h ?rq (sent_body rq) m w = (Some rp, w')"
  have h: "h_active ?h = Some p" "accepts (h_conn ?h)"
    by (simp_all add: pool_handler_def new_handler_def pool(1) env(1))
  have guarded: "\<exists>s' es. guarded env a rq s = (True, s') \<and> rt_out s' = rt_out s @ es \<and> ?P es"
    if world: "rt_world s = rt_world st" for s
  proof -
    have can: "can_answer ?h ?rq (sent_body ?rq) I g" using one(3) by (simp add: sent_body_authenticated)
    have "I (rt_world (tag_scope (c_name c) s))"
      using spared(2) world by (simp add: tag_scope_def split: option.splits)
    from serve_http_serves [OF h(1) pool(2,3) h(2) env(2) one(1,2) can spared(1) this]
    obtain s' where "serve_http ?h ?rq (tag_scope (c_name c) s) = (True, s')"
      "served_by ?h ?rq (sent_body rq) (p_members p) (tag_scope (c_name c) s) s'"
      unfolding sent_body_authenticated by blast
    moreover have "guarded env a rq s = serve_http ?h ?rq (tag_scope (c_name c) s)"
      by (simp add: guarded_def client(1) auth_passes [OF client(2,3), THEN conjunct1])
    moreover have "rt_out (tag_scope (c_name c) s) = rt_out s" by (simp add: tag_scope_def split: option.splits)
    ultimately show ?thesis unfolding served_by_def by metis
  qed
  have "\<exists>st' es. proxy_chain env a rq st = (True, st') \<and> rt_out st' = rt_out st @ es \<and> ?P es"
  proof (cases "cf_access_log (ap_cfg a)")
    case True
    from access_log_relays [of "st\<lparr>rt_scope := Some \<lparr>sc_ip = from_request (Some (ap_resolver a))
        (rq_header rq) (rq_remote rq), sc_client = []\<rparr>\<rparr>" "guarded env a" rq ?P, OF guarded] True
    show ?thesis by (simp add: layer_defs)
  next
    case False
    from guarded [of "st\<lparr>rt_scope := Some \<lparr>sc_ip = from_request (Some (ap_resolver a)) (rq_header rq) (rq_remote rq),
        sc_client = []\<rparr>\<rparr>"] False
    show ?thesis by (simp add: layer_defs)
  qed
  then show ?thesis by blast
qed

definition served_app :: "mem_world app" where
  "served_app = demo_app\<lparr>ap_pool := pool_watch (demo_pool_loader\<lparr>ld_active := Some demo_pool\<rparr>),
     ap_store := Some mem_redis\<rparr>"

theorem registered_client_served_witness:
  "\<exists>es rp. rt_out (snd (proxy_chain demo_env served_app auth_request (start_state mem_empty))) = es
     \<and> relayed rp es \<and> final_response rp"
proof -
  let ?a = served_app and ?st = "start_state mem_empty"
  have h: "pool_handler demo_env ?a = (demo_handler (Some mem_redis))\<lparr>h_active := Some demo_pool\<rparr>"
    and pool: "pool_active (ap_pool ?a) = Some demo_pool"
    by (simp_all add: pool_handler_def demo_env_def served_app_def demo_app_def demo_handler_def
        pool_active_def pool_watch_def new_handler_def)
  have client: "client_active (ap_clients ?a) = Some demo_registry"
    using demo_app_registry by (simp add: served_app_def)
  have name: "c_name demo_client = ''maria''" by (simp add: demo_client_def)
  have "map_option up_url (build_request (\<lambda>v. ''k'') (\<lambda>f. None) (authenticated auth_request ''maria'')
      (sent_body auth_request) demo_fallback) = Some ''https://b/v1''" by code_simp
  note can = demo_can_answer [OF this]
  have env: "accepts (en_conn demo_env)" by (simp add: demo_env_def accepts_def demo_conn_def)
  have "\<exists>st' es m rp w w'. proxy_chain demo_env ?a auth_request ?st = (True, st')
    \<and> rt_out st' = rt_out ?st @ es \<and> relayed rp es \<and> final_response rp
    \<and> m \<in> set (p_members demo_pool) \<and> is_enabled m
    \<and> send (pool_handler demo_env ?a) (authenticated auth_request (c_name demo_client))
        (sent_body auth_request) m w = (Some rp, w')"
    by (rule registered_client_served [OF client demo_registry_indexed demo_admits pool demo_pool_ok
          demo_pool_facts(1) env _ demo_pool_facts(3,2), where I = "\<lambda>w. mem_live w (cool_prefix @ m_id demo_fallback) = None"])
      (simp_all only: h name can demo_upstream_ok demo_spares,
        simp add: start_state_def mem_live_def mem_empty_def)
  then show ?thesis by (auto simp: start_state_def)
qed

end
